theory Spec2Isabelle
  imports Complex_Main
begin

section \<open>JavaScript numbers\<close>

text \<open>
  The annotator (\<^verbatim>\<open>src/App.jsx\<close>) computes with JavaScript numbers. A number is modelled
  as a real, or one of the three special values of IEEE arithmetic; the arithmetic on the
  finite part is exact (no rounding to 53 bits). Division by zero, products of zero and an
  infinity, and the way \<^verbatim>\<open>Math.min\<close>, \<^verbatim>\<open>Math.max\<close> and the comparisons treat
  \<^verbatim>\<open>NaN\<close> are those of the language. Negative zero is not told apart from zero: the
  divisors of the program that can be zero are DOM integers and the zoom, none of which
  is ever a negative zero.

  Exact arithmetic is an idealisation of the program's doubles: a finite value computed
  here can differ from the program's in the last place, and so an integer obtained with
  \<^verbatim>\<open>Math.round\<close> by one. The program computes \<open>21 * (34 / 28)\<close> as
  \<open>25.499999999999996\<close> and rounds it to 25, where the exact product is \<open>25.5\<close> and
  rounds to 26. The theorems of this theory are about guards, orders, ranges, integrality
  and the shape of the state. None of them states that two values computed in different
  ways agree, and none gives the value of a result of \<^verbatim>\<open>Math.round\<close> other than at the
  concrete examples, whose values doubles represent exactly (the one exception is the
  wheel event \<open>exWheel\<close>, whose \<open>deltaY\<close> is the real number that makes the zoom factor
  exactly 2).
\<close>

datatype jsnum = Fin real | PInf | NInf | NaN

fun jneg :: "jsnum \<Rightarrow> jsnum" where
  "jneg (Fin a) = Fin (- a)"
| "jneg PInf = NInf"
| "jneg NInf = PInf"
| "jneg NaN = NaN"

fun jadd :: "jsnum \<Rightarrow> jsnum \<Rightarrow> jsnum" where
  "jadd (Fin a) (Fin b) = Fin (a + b)"
| "jadd NaN _ = NaN"
| "jadd _ NaN = NaN"
| "jadd PInf NInf = NaN"
| "jadd NInf PInf = NaN"
| "jadd PInf _ = PInf"
| "jadd _ PInf = PInf"
| "jadd NInf _ = NInf"
| "jadd _ NInf = NInf"

definition jsub :: "jsnum \<Rightarrow> jsnum \<Rightarrow> jsnum" where
  "jsub a b = jadd a (jneg b)"

fun jmul :: "jsnum \<Rightarrow> jsnum \<Rightarrow> jsnum" where
  "jmul (Fin a) (Fin b) = Fin (a * b)"
| "jmul NaN _ = NaN"
| "jmul _ NaN = NaN"
| "jmul (Fin a) PInf = (if a = 0 then NaN else if 0 < a then PInf else NInf)"
| "jmul (Fin a) NInf = (if a = 0 then NaN else if 0 < a then NInf else PInf)"
| "jmul PInf (Fin b) = (if b = 0 then NaN else if 0 < b then PInf else NInf)"
| "jmul NInf (Fin b) = (if b = 0 then NaN else if 0 < b then NInf else PInf)"
| "jmul PInf PInf = PInf"
| "jmul PInf NInf = NInf"
| "jmul NInf PInf = NInf"
| "jmul NInf NInf = PInf"

fun jdiv :: "jsnum \<Rightarrow> jsnum \<Rightarrow> jsnum" where
  "jdiv (Fin a) (Fin b) =
     (if b \<noteq> 0 then Fin (a / b)
      else if a = 0 then NaN else if 0 < a then PInf else NInf)"
| "jdiv NaN _ = NaN"
| "jdiv _ NaN = NaN"
| "jdiv (Fin a) PInf = Fin 0"
| "jdiv (Fin a) NInf = Fin 0"
| "jdiv PInf (Fin b) = (if 0 \<le> b then PInf else NInf)"
| "jdiv NInf (Fin b) = (if 0 \<le> b then NInf else PInf)"
| "jdiv PInf PInf = NaN"
| "jdiv PInf NInf = NaN"
| "jdiv NInf PInf = NaN"
| "jdiv NInf NInf = NaN"

text \<open>\<^verbatim>\<open>Math.min\<close> and \<^verbatim>\<open>Math.max\<close>: \<^verbatim>\<open>NaN\<close> as soon as one argument is.\<close>

fun jmin :: "jsnum \<Rightarrow> jsnum \<Rightarrow> jsnum" where
  "jmin (Fin a) (Fin b) = Fin (min a b)"
| "jmin NaN _ = NaN"
| "jmin _ NaN = NaN"
| "jmin NInf _ = NInf"
| "jmin _ NInf = NInf"
| "jmin PInf b = b"
| "jmin a PInf = a"

fun jmax :: "jsnum \<Rightarrow> jsnum \<Rightarrow> jsnum" where
  "jmax (Fin a) (Fin b) = Fin (max a b)"
| "jmax NaN _ = NaN"
| "jmax _ NaN = NaN"
| "jmax PInf _ = PInf"
| "jmax _ PInf = PInf"
| "jmax NInf b = b"
| "jmax a NInf = a"

text \<open>\<^verbatim>\<open>Math.round\<close> rounds halves up: \<^verbatim>\<open>Math.round(-3.5)\<close> is \<^verbatim>\<open>-3\<close>.\<close>

fun jround :: "jsnum \<Rightarrow> jsnum" where
  "jround (Fin a) = Fin (of_int \<lfloor>a + 1 / 2\<rfloor>)"
| "jround PInf = PInf"
| "jround NInf = NInf"
| "jround NaN = NaN"

fun jabs :: "jsnum \<Rightarrow> jsnum" where
  "jabs (Fin a) = Fin \<bar>a\<bar>"
| "jabs PInf = PInf"
| "jabs NInf = PInf"
| "jabs NaN = NaN"

fun jexp :: "jsnum \<Rightarrow> jsnum" where
  "jexp (Fin a) = Fin (exp a)"
| "jexp PInf = PInf"
| "jexp NInf = Fin 0"
| "jexp NaN = NaN"

text \<open>The comparisons \<^verbatim>\<open><=\<close>, \<^verbatim>\<open><\<close>, \<^verbatim>\<open>>\<close> and \<^verbatim>\<open>===\<close>: false whenever \<^verbatim>\<open>NaN\<close> is involved.\<close>

fun jle :: "jsnum \<Rightarrow> jsnum \<Rightarrow> bool" where
  "jle (Fin a) (Fin b) = (a \<le> b)"
| "jle NaN _ = False"
| "jle _ NaN = False"
| "jle NInf _ = True"
| "jle _ PInf = True"
| "jle PInf _ = False"
| "jle _ NInf = False"

fun jlt :: "jsnum \<Rightarrow> jsnum \<Rightarrow> bool" where
  "jlt (Fin a) (Fin b) = (a < b)"
| "jlt NaN _ = False"
| "jlt _ NaN = False"
| "jlt PInf _ = False"
| "jlt _ NInf = False"
| "jlt NInf _ = True"
| "jlt _ PInf = True"

definition jgt :: "jsnum \<Rightarrow> jsnum \<Rightarrow> bool" where
  "jgt a b = jlt b a"

definition jeq :: "jsnum \<Rightarrow> jsnum \<Rightarrow> bool" where
  "jeq a b = (a \<noteq> NaN \<and> a = b)"

section \<open>Data\<close>

text \<open>A point \<^verbatim>\<open>{ x, y }\<close>.\<close>

record point =
  pt_x :: jsnum
  pt_y :: jsnum

text \<open>A field box \<^verbatim>\<open>{ id, x, y, w, h, name }\<close>, in natural image pixels.\<close>

record box =
  box_id :: string
  box_x :: jsnum
  box_y :: jsnum
  box_w :: jsnum
  box_h :: jsnum
  box_name :: string

text \<open>The result \<^verbatim>\<open>{ minX, maxX, minY, maxY }\<close> of \<^verbatim>\<open>getPanBounds\<close>.\<close>

record bounds =
  minX :: jsnum
  maxX :: jsnum
  minY :: jsnum
  maxY :: jsnum

text \<open>
  The off-DOM image: \<^verbatim>\<open>naturalWidth\<close> and \<^verbatim>\<open>naturalHeight\<close> are unsigned integers of
  the DOM.
\<close>

record image =
  naturalWidth :: nat
  naturalHeight :: nat

text \<open>
  The canvas element. \<^verbatim>\<open>width\<close> and \<^verbatim>\<open>height\<close> are its drawing-buffer size (unsigned
  integers); \<^verbatim>\<open>style_width\<close> and \<^verbatim>\<open>style_height\<close> hold the number of the inline style
  \<^verbatim>\<open>"<n>px"\<close>, or nothing while the style is the empty string; \<^verbatim>\<open>rect_left\<close> and
  \<^verbatim>\<open>rect_top\<close> are what \<^verbatim>\<open>getBoundingClientRect()\<close> returns.
\<close>

record canvas =
  width :: nat
  height :: nat
  style_width :: "real option"
  style_height :: "real option"
  rect_left :: real
  rect_top :: real

record container =
  clientWidth :: int
  clientHeight :: int

text \<open>A mouse event, and a wheel event (which is a mouse event with more fields).\<close>

record mouse_event =
  clientX :: real
  clientY :: real

record wheel_event =
  w_clientX :: real
  w_clientY :: real
  deltaX :: real
  deltaY :: real
  deltaMode :: nat
  ctrlKey :: bool
  metaKey :: bool
  shiftKey :: bool

text \<open>
  The component's state: the refs and the React state variables the handlers read and
  write, together with \<^verbatim>\<open>window.devicePixelRatio\<close>.
\<close>

record state =
  imageRef :: "image option"
  canvasRef :: "canvas option"
  containerRef :: "container option"
  devicePixelRatio :: real
  zoom :: jsnum
  pan :: point
  panRef :: point
  zoomRef :: jsnum
  spaceDown :: bool
  isPanning :: bool
  panStartRef :: point
  boxes :: "box list"
  isDrawing :: bool
  startPt :: "point option"
  currentPt :: "point option"
  imageScroll :: point
  imageScrollRef :: point

section \<open>Pan bounds and clamping\<close>

definition getPanBounds :: "jsnum \<Rightarrow> state \<Rightarrow> bounds" where
  "getPanBounds z s =
     (case canvasRef s of
        None \<Rightarrow> \<lparr>minX = Fin 0, maxX = Fin 0, minY = Fin 0, maxY = Fin 0\<rparr>
      | Some canvas \<Rightarrow>
          let cw = Fin (real (width canvas));
              ch = Fin (real (height canvas));
              contentW = jmul z cw;
              contentH = jmul z ch
          in if jle contentW cw \<and> jle contentH ch then
               (let cx = jdiv (jsub cw contentW) (Fin 2);
                    cy = jdiv (jsub ch contentH) (Fin 2)
                in \<lparr>minX = cx, maxX = cx, minY = cy, maxY = cy\<rparr>)
             else
               (let bounds0 = \<lparr>minX = jmin (Fin 0) (jsub cw contentW), maxX = Fin 0,
                               minY = jmin (Fin 0) (jsub ch contentH), maxY = Fin 0\<rparr>;
                    bounds1 = (if jle contentW cw then
                                 (let cx = jdiv (jsub cw contentW) (Fin 2)
                                  in bounds0\<lparr>minX := cx, maxX := cx\<rparr>)
                               else bounds0);
                    bounds2 = (if jle contentH ch then
                                 (let cy = jdiv (jsub ch contentH) (Fin 2)
                                  in bounds1\<lparr>minY := cy, maxY := cy\<rparr>)
                               else bounds1)
                in bounds2))"

definition clampPan :: "jsnum \<Rightarrow> point \<Rightarrow> state \<Rightarrow> point" where
  "clampPan z p s =
     (let b = getPanBounds z s
      in \<lparr>pt_x = jmin (maxX b) (jmax (minX b) (pt_x p)),
          pt_y = jmin (maxY b) (jmax (minY b) (pt_y p))\<rparr>)"

definition resetView :: "state \<Rightarrow> state" where
  "resetView s =
     (let z = Fin 1;
          s1 = s\<lparr>zoomRef := z, zoom := z\<rparr>;
          centered = clampPan z \<lparr>pt_x = Fin 0, pt_y = Fin 0\<rparr> s1
      in s1\<lparr>panRef := centered, pan := centered\<rparr>)"

section \<open>Fitting the canvas to its container\<close>

text \<open>\<^verbatim>\<open>window.devicePixelRatio || 1\<close>: a zero ratio is replaced by 1.\<close>

definition dprOf :: "state \<Rightarrow> jsnum" where
  "dprOf s = (if devicePixelRatio s = 0 then Fin 1 else Fin (devicePixelRatio s))"

text \<open>
  What the DOM does with the values the code assigns. Assigning \<^verbatim>\<open>`${v}px`\<close> to
  \<^verbatim>\<open>style.width\<close> stores the length when it is a non-negative number and leaves the
  style as it was otherwise (a negative length, \<^verbatim>\<open>NaNpx\<close> and \<^verbatim>\<open>Infinitypx\<close> are not
  valid widths). \<^verbatim>\<open>parseInt(style.width || '0', 10)\<close> reads the integer part back, 0 for
  the empty style.
\<close>

definition setStylePx :: "real option \<Rightarrow> jsnum \<Rightarrow> real option" where
  "setStylePx old v = (case v of Fin r \<Rightarrow> (if 0 \<le> r then Some r else old) | _ \<Rightarrow> old)"

definition parseStylePx :: "real option \<Rightarrow> jsnum" where
  "parseStylePx st = (case st of None \<Rightarrow> Fin 0 | Some r \<Rightarrow> Fin (of_int \<lfloor>r\<rfloor>))"

text \<open>
  Assigning a number to \<^verbatim>\<open>canvas.width\<close> converts it to an unsigned 32-bit integer
  (truncation, modulo \<open>2 ^ 32\<close>; 0 for \<^verbatim>\<open>NaN\<close> and the infinities) and stores it when
  it is at most \<open>2 ^ 31 - 1\<close>, the attribute's default (300 for the width, 150 for the
  height) otherwise.
\<close>

definition toUint32 :: "jsnum \<Rightarrow> nat" where
  "toUint32 v =
     (case v of
        Fin r \<Rightarrow> nat ((if 0 \<le> r then \<lfloor>r\<rfloor> else \<lceil>r\<rceil>) mod 4294967296)
      | _ \<Rightarrow> 0)"

definition setCanvasDim :: "nat \<Rightarrow> jsnum \<Rightarrow> nat" where
  "setCanvasDim dflt v = (let n = toUint32 v in if n \<le> 2147483647 then n else dflt)"

definition fitCanvasToContainer :: "state \<Rightarrow> state" where
  "fitCanvasToContainer s =
     (case (canvasRef s, containerRef s, imageRef s) of
        (Some canvas, Some cont, Some img) \<Rightarrow>
          let containerWidth = Fin (real_of_int (clientWidth cont - 32));
              containerHeight = Fin (real_of_int (clientHeight cont - 32));
              aspect = jdiv (Fin (real (naturalWidth img))) (Fin (real (naturalHeight img)));
              nextCssWidth = jmin containerWidth (Fin (real (naturalWidth img)));
              nextCssHeight = jround (jdiv nextCssWidth aspect);
              dpr = dprOf s;
              nextPixelWidth = jround (jmul nextCssWidth dpr);
              nextPixelHeight = jround (jmul nextCssHeight dpr);
              curCssWidth = parseStylePx (style_width canvas);
              curCssHeight = parseStylePx (style_height canvas)
          in if jeq curCssWidth nextCssWidth \<and> jeq curCssHeight nextCssHeight
                \<and> jeq (Fin (real (width canvas))) nextPixelWidth
                \<and> jeq (Fin (real (height canvas))) nextPixelHeight
             then s
             else
               (let canvas' = canvas\<lparr>style_width := setStylePx (style_width canvas) nextCssWidth,
                                     style_height := setStylePx (style_height canvas) nextCssHeight,
                                     width := setCanvasDim 300 nextPixelWidth,
                                     height := setCanvasDim 150 nextPixelHeight\<rparr>;
                    s1 = s\<lparr>canvasRef := Some canvas',
                           imageScrollRef := \<lparr>pt_x = Fin 0, pt_y = Fin 0\<rparr>,
                           imageScroll := \<lparr>pt_x = Fin 0, pt_y = Fin 0\<rparr>\<rparr>;
                    clamped = clampPan (zoomRef s1) (panRef s1) s1
                in s1\<lparr>panRef := clamped, pan := clamped\<rparr>)
      | _ \<Rightarrow> s)"

text \<open>
  The four numbers \<^verbatim>\<open>fitCanvasToContainer\<close> computes before it compares them with the
  current ones: \<^verbatim>\<open>nextCssWidth\<close>, \<^verbatim>\<open>nextCssHeight\<close>, \<^verbatim>\<open>nextPixelWidth\<close> and
  \<^verbatim>\<open>nextPixelHeight\<close>, for a container, an image and a device pixel ratio.
\<close>

definition fitNext :: "container \<Rightarrow> image \<Rightarrow> jsnum \<Rightarrow> jsnum \<times> jsnum \<times> jsnum \<times> jsnum" where
  "fitNext cont img dpr =
     (let nextCssWidth = jmin (Fin (real_of_int (clientWidth cont - 32)))
                              (Fin (real (naturalWidth img)));
          aspect = jdiv (Fin (real (naturalWidth img))) (Fin (real (naturalHeight img)));
          nextCssHeight = jround (jdiv nextCssWidth aspect)
      in (nextCssWidth, nextCssHeight,
          jround (jmul nextCssWidth dpr), jround (jmul nextCssHeight dpr)))"

section \<open>From a pointer event to natural image pixels\<close>

text \<open>
  The quotients and products of \<^verbatim>\<open>eventToImageCoords\<close> are exact here and doubles in the
  program, so the product under \<^verbatim>\<open>Math.round\<close> can lie on the other side of a half and
  the integer returned can differ by one from the program's. What is proved of this
  function (the guard for a missing canvas or image, the range and integrality of the
  result, the \<^verbatim>\<open>NaN\<close> of a zero-sized canvas) holds whichever of the two neighbours is
  returned.
\<close>

definition eventToImageCoords :: "mouse_event \<Rightarrow> state \<Rightarrow> point" where
  "eventToImageCoords evt s =
     (case (canvasRef s, imageRef s) of
        (Some canvas, Some img) \<Rightarrow>
          let dpr = dprOf s;
              cx = jmul (jsub (Fin (clientX evt)) (Fin (rect_left canvas))) dpr;
              cy = jmul (jsub (Fin (clientY evt)) (Fin (rect_top canvas))) dpr;
              z = zoomRef s;
              px = pt_x (panRef s);
              py = pt_y (panRef s);
              vx = jdiv (jsub cx px) z;
              vy = jdiv (jsub cy py) z;
              sx = jdiv (Fin (real (naturalWidth img))) (Fin (real (width canvas)));
              sy = jdiv (Fin (real (naturalHeight img))) (Fin (real (height canvas)))
          in \<lparr>pt_x = jmax (Fin 0) (jmin (Fin (real (naturalWidth img))) (jround (jmul vx sx))),
              pt_y = jmax (Fin 0) (jmin (Fin (real (naturalHeight img))) (jround (jmul vy sy)))\<rparr>
      | _ \<Rightarrow> \<lparr>pt_x = Fin 0, pt_y = Fin 0\<rparr>)"


section \<open>Mouse handlers\<close>

text \<open>
  \<^verbatim>\<open>onMouseDown\<close> and \<^verbatim>\<open>onMouseMove\<close> read \<^verbatim>\<open>canvasRef.current.getBoundingClientRect()\<close>
  without a guard: without a canvas this is a \<^verbatim>\<open>TypeError\<close>, the result \<open>None\<close>.
\<close>

definition onMouseDown :: "mouse_event \<Rightarrow> state \<Rightarrow> state option" where
  "onMouseDown e s =
     (if imageRef s = None then Some s
      else if spaceDown s then
        (case canvasRef s of
           None \<Rightarrow> None
         | Some canvas \<Rightarrow>
             let dpr = dprOf s
             in Some (s\<lparr>isPanning := True,
                        panStartRef :=
                          \<lparr>pt_x = jsub (jmul (jsub (Fin (clientX e)) (Fin (rect_left canvas))) dpr)
                                        (pt_x (panRef s)),
                           pt_y = jsub (jmul (jsub (Fin (clientY e)) (Fin (rect_top canvas))) dpr)
                                        (pt_y (panRef s))\<rparr>\<rparr>))
      else
        (let pt = eventToImageCoords e s
         in Some (s\<lparr>startPt := Some pt, currentPt := Some pt, isDrawing := True\<rparr>)))"

definition onMouseMove :: "mouse_event \<Rightarrow> state \<Rightarrow> state option" where
  "onMouseMove e s =
     (if isPanning s then
        (case canvasRef s of
           None \<Rightarrow> None
         | Some canvas \<Rightarrow>
             let dpr = dprOf s;
                 raw = \<lparr>pt_x = jsub (jmul (jsub (Fin (clientX e)) (Fin (rect_left canvas))) dpr)
                                    (pt_x (panStartRef s)),
                        pt_y = jsub (jmul (jsub (Fin (clientY e)) (Fin (rect_top canvas))) dpr)
                                    (pt_y (panStartRef s))\<rparr>;
                 clamped = clampPan (zoomRef s) raw s
             in Some (s\<lparr>panRef := clamped, pan := clamped\<rparr>))
      else if \<not> isDrawing s then Some s
      else Some (s\<lparr>currentPt := Some (eventToImageCoords e s)\<rparr>))"

text \<open>
  \<^verbatim>\<open>endInteractions\<close> (mouse up and mouse leave). The identifier that
  \<^verbatim>\<open>crypto.randomUUID()\<close> returns is the argument \<open>uuid\<close>.
\<close>

definition endInteractions :: "string \<Rightarrow> state \<Rightarrow> state" where
  "endInteractions uuid s =
     (let s0 = s\<lparr>isPanning := False\<rparr>
      in case (isDrawing s, startPt s, currentPt s) of
           (True, Some sp, Some cp) \<Rightarrow>
             let x = jmin (pt_x sp) (pt_x cp);
                 y = jmin (pt_y sp) (pt_y cp);
                 w = jabs (jsub (pt_x cp) (pt_x sp));
                 h = jabs (jsub (pt_y cp) (pt_y sp));
                 s1 = (if jgt w (Fin 5) \<and> jgt h (Fin 5) then
                         s0\<lparr>boxes := boxes s0 @
                               [\<lparr>box_id = uuid, box_x = x, box_y = y, box_w = w, box_h = h,
                                 box_name = ''''\<rparr>]\<rparr>
                       else s0)
             in s1\<lparr>isDrawing := False, startPt := None, currentPt := None\<rparr>
         | _ \<Rightarrow> s0\<lparr>isDrawing := False\<rparr>)"

section \<open>The wheel handler\<close>

text \<open>
  The zoom branch of \<^verbatim>\<open>wheelHandler\<close>, from \<^verbatim>\<open>const oldZ = zoomRef.current\<close> on: zoom
  about the canvas pixel \<open>(mx, my)\<close> by \<open>factor\<close>. The new zoom and the raw pan are the
  exact values of the source's expressions; the program's are their doubles. What is
  proved of this function (the clamp of the zoom, the pan written through \<^verbatim>\<open>clampPan\<close>
  and within its bounds) does not depend on the difference; nothing is proved here about
  how closely the point under the pointer is kept, which does.
\<close>

definition zoomAt :: "jsnum \<Rightarrow> jsnum \<Rightarrow> jsnum \<Rightarrow> state \<Rightarrow> state" where
  "zoomAt mx my factor s =
     (let minZ = Fin (1 / 5);
          maxZ = Fin 8;
          oldZ = zoomRef s;
          newZ = jmin maxZ (jmax minZ (jmul oldZ factor))
      in if jeq newZ oldZ then s
         else
           (let rawPanX = jsub mx (jdiv (jmul (jsub mx (pt_x (panRef s))) newZ) oldZ);
                rawPanY = jsub my (jdiv (jmul (jsub my (pt_y (panRef s))) newZ) oldZ);
                clamped = clampPan newZ \<lparr>pt_x = rawPanX, pt_y = rawPanY\<rparr> s
            in s\<lparr>zoomRef := newZ, panRef := clamped, zoom := newZ, pan := clamped\<rparr>))"

text \<open>
  The listener is registered on the canvas by an effect that returns at once when there
  is no canvas: without one the handler does not exist. The last branch scrolls the
  container, whose scroll offsets are not part of the state modelled here.
\<close>

definition wheelHandler :: "wheel_event \<Rightarrow> state \<Rightarrow> state" where
  "wheelHandler e s =
     (case canvasRef s of
        None \<Rightarrow> s
      | Some canvas \<Rightarrow>
          if ctrlKey e \<or> metaKey e then
            (let dpr = dprOf s;
                 mx = jmul (jsub (Fin (w_clientX e)) (Fin (rect_left canvas))) dpr;
                 my = jmul (jsub (Fin (w_clientY e)) (Fin (rect_top canvas))) dpr;
                 delta = jneg (Fin (deltaY e));
                 factor = jexp (jmul delta (Fin (15 / 10000)))
             in zoomAt mx my factor s)
          else if spaceDown s then
            (let lineHeight = Fin 16;
                 scale = (if deltaMode e = 1 then lineHeight else Fin 1);
                 dX = (if shiftKey e then Fin (deltaY e) else Fin (deltaX e));
                 dY = (if shiftKey e then Fin 0 else Fin (deltaY e));
                 raw = \<lparr>pt_x = jsub (pt_x (panRef s)) (jmul dX scale),
                        pt_y = jsub (pt_y (panRef s)) (jmul dY scale)\<rparr>;
                 clamped = clampPan (zoomRef s) raw s
             in s\<lparr>panRef := clamped, pan := clamped\<rparr>)
          else s)"

section \<open>Editing the list of boxes\<close>

definition updateBoxName :: "string \<Rightarrow> string \<Rightarrow> state \<Rightarrow> state" where
  "updateBoxName i name s =
     s\<lparr>boxes := map (\<lambda>b. if box_id b = i then b\<lparr>box_name := name\<rparr> else b) (boxes s)\<rparr>"

definition deleteBox :: "string \<Rightarrow> state \<Rightarrow> state" where
  "deleteBox i s = s\<lparr>boxes := filter (\<lambda>b. box_id b \<noteq> i) (boxes s)\<rparr>"

section \<open>The other handlers, and the states the component can reach\<close>

text \<open>The global key handlers react to the space bar only.\<close>

definition onKeyDown :: "string \<Rightarrow> state \<Rightarrow> state" where
  "onKeyDown code s = (if code = ''Space'' then s\<lparr>spaceDown := True\<rparr> else s)"

definition onKeyUp :: "string \<Rightarrow> state \<Rightarrow> state" where
  "onKeyUp code s = (if code = ''Space'' then s\<lparr>spaceDown := False, isPanning := False\<rparr> else s)"

text \<open>
  \<^verbatim>\<open>reader.onload\<close> of \<^verbatim>\<open>onFileChange\<close> empties the boxes and resets the view.
  \<^verbatim>\<open>img.onload\<close> installs the decoded image, fits the canvas and resets the view.
  \<^verbatim>\<open>clearAll\<close> empties the boxes and resets the view. When the image URL changes, the
  image effect (its cleanup, or its branch for no URL) sets \<^verbatim>\<open>imageRef.current\<close> to null.
\<close>

definition readerOnload :: "state \<Rightarrow> state" where
  "readerOnload s = resetView (s\<lparr>boxes := []\<rparr>)"

definition imgOnload :: "image \<Rightarrow> state \<Rightarrow> state" where
  "imgOnload img s = resetView (fitCanvasToContainer (s\<lparr>imageRef := Some img\<rparr>))"

definition clearAll :: "state \<Rightarrow> state" where
  "clearAll s = resetView (s\<lparr>boxes := []\<rparr>)"

definition imageEffectCleanup :: "state \<Rightarrow> state" where
  "imageEffectCleanup s = s\<lparr>imageRef := None\<rparr>"

text \<open>
  The state after mounting: a fresh canvas has a 300 by 150 drawing buffer and no inline
  style; the boxes are those found in local storage, if any.
\<close>

definition initialState :: "real \<Rightarrow> real \<Rightarrow> container \<Rightarrow> real \<Rightarrow> box list \<Rightarrow> state" where
  "initialState rl rt cont ratio stored =
     \<lparr>imageRef = None,
      canvasRef = Some \<lparr>width = 300, height = 150, style_width = None, style_height = None,
                        rect_left = rl, rect_top = rt\<rparr>,
      containerRef = Some cont,
      devicePixelRatio = ratio,
      zoom = Fin 1,
      pan = \<lparr>pt_x = Fin 0, pt_y = Fin 0\<rparr>,
      panRef = \<lparr>pt_x = Fin 0, pt_y = Fin 0\<rparr>,
      zoomRef = Fin 1,
      spaceDown = False,
      isPanning = False,
      panStartRef = \<lparr>pt_x = Fin 0, pt_y = Fin 0\<rparr>,
      boxes = stored,
      isDrawing = False,
      startPt = None,
      currentPt = None,
      imageScroll = \<lparr>pt_x = Fin 0, pt_y = Fin 0\<rparr>,
      imageScrollRef = \<lparr>pt_x = Fin 0, pt_y = Fin 0\<rparr>\<rparr>"

text \<open>
  What can happen to the component. \<open>Layout\<close> is the environment moving or resizing
  things without the component noticing yet: a new container size, a new position of the
  canvas on the screen, a new device pixel ratio.
\<close>

datatype action =
    MouseDown mouse_event
  | MouseMove mouse_event
  | MouseUp string
  | MouseLeave string
  | Wheel wheel_event
  | KeyDown string
  | KeyUp string
  | ResetViewClick
  | ContainerResized
  | ReaderLoaded
  | ImageLoaded image
  | ClearAllClick
  | ImageDropped
  | RenameBox string string
  | RemoveBox string
  | Layout container real real real

fun step :: "action \<Rightarrow> state \<Rightarrow> state option" where
  "step (MouseDown e) s = onMouseDown e s"
| "step (MouseMove e) s = onMouseMove e s"
| "step (MouseUp uuid) s = Some (endInteractions uuid s)"
| "step (MouseLeave uuid) s = Some (endInteractions uuid s)"
| "step (Wheel e) s = Some (wheelHandler e s)"
| "step (KeyDown code) s = Some (onKeyDown code s)"
| "step (KeyUp code) s = Some (onKeyUp code s)"
| "step ResetViewClick s = Some (resetView s)"
| "step ContainerResized s = Some (fitCanvasToContainer s)"
| "step ReaderLoaded s = Some (readerOnload s)"
| "step (ImageLoaded img) s = Some (imgOnload img s)"
| "step ClearAllClick s = Some (clearAll s)"
| "step ImageDropped s = Some (imageEffectCleanup s)"
| "step (RenameBox i name) s = Some (updateBoxName i name s)"
| "step (RemoveBox i) s = Some (deleteBox i s)"
| "step (Layout cont rl rt ratio) s =
     Some (s\<lparr>containerRef := Some cont,
             canvasRef := map_option (\<lambda>c. c\<lparr>rect_left := rl, rect_top := rt\<rparr>) (canvasRef s),
             devicePixelRatio := ratio\<rparr>)"

inductive reachable :: "state \<Rightarrow> bool" where
  reach_init: "reachable (initialState rl rt cont ratio stored)"
| reach_step: "reachable s \<Longrightarrow> step a s = Some s' \<Longrightarrow> reachable s'"

text \<open>A point lies within bounds: both coordinates between the minimum and the maximum.\<close>

definition withinBounds :: "bounds \<Rightarrow> point \<Rightarrow> bool" where
  "withinBounds b p \<longleftrightarrow>
     jle (minX b) (pt_x p) \<and> jle (pt_x p) (maxX b) \<and>
     jle (minY b) (pt_y p) \<and> jle (pt_y p) (maxY b)"

text \<open>
  The invariant of the viewport: the zoom is a number between 0.2 and 8, the pan and the
  start of a drag are finite, the canvas exists, the React state mirrors the refs, and the
  pan lies within the bounds of the current zoom and canvas.
\<close>

definition isFinite :: "jsnum \<Rightarrow> bool" where
  "isFinite v = (case v of Fin _ \<Rightarrow> True | _ \<Rightarrow> False)"

definition finitePt :: "point \<Rightarrow> bool" where
  "finitePt p \<longleftrightarrow> isFinite (pt_x p) \<and> isFinite (pt_y p)"

definition viewportInv :: "state \<Rightarrow> bool" where
  "viewportInv s \<longleftrightarrow>
     jle (Fin (1 / 5)) (zoomRef s) \<and> jle (zoomRef s) (Fin 8) \<and>
     finitePt (panRef s) \<and> finitePt (panStartRef s) \<and> canvasRef s \<noteq> None \<and>
     pan s = panRef s \<and> zoom s = zoomRef s \<and>
     withinBounds (getPanBounds (zoomRef s) s) (panRef s)"

text \<open>
  A drawing gesture on the image \<open>img\<close>: it begins with a mouse-down on that image,
  every mouse-move belongs to it, and whatever else happens meanwhile leaves its two
  points alone and does not replace the image by another one.
\<close>

inductive gesture :: "image \<Rightarrow> state \<Rightarrow> bool" where
  gesture_begin:
    "imageRef s = Some img \<Longrightarrow> \<not> spaceDown s \<Longrightarrow> onMouseDown e s = Some s' \<Longrightarrow> gesture img s'"
| gesture_move:
    "gesture img s \<Longrightarrow> onMouseMove e s = Some s' \<Longrightarrow> gesture img s'"
| gesture_other:
    "gesture img s \<Longrightarrow> startPt s' = startPt s \<Longrightarrow> currentPt s' = currentPt s \<Longrightarrow>
     imageRef s' = imageRef s \<or> imageRef s' = None \<Longrightarrow> gesture img s'"

text \<open>
  What \<^verbatim>\<open>eventToImageCoords\<close> can return for a coordinate of an image of size \<open>n\<close>
  on that axis: an integer between 0 and \<open>n\<close>, or \<^verbatim>\<open>NaN\<close>.
\<close>

definition naturalCoord :: "nat \<Rightarrow> jsnum \<Rightarrow> bool" where
  "naturalCoord n v =
     (case v of
        Fin r \<Rightarrow> real_of_int \<lfloor>r\<rfloor> = r \<and> 0 \<le> r \<and> r \<le> real n
      | NaN \<Rightarrow> True
      | _ \<Rightarrow> False)"

definition naturalPoint :: "image \<Rightarrow> point \<Rightarrow> bool" where
  "naturalPoint img p \<longleftrightarrow>
     naturalCoord (naturalWidth img) (pt_x p) \<and> naturalCoord (naturalHeight img) (pt_y p)"

section \<open>Concrete states\<close>

text \<open>
  The scenario of the specification: an image of 800 by 600 natural pixels in a container
  that leaves 400 pixels of width (432 minus the padding), at a device pixel ratio of 1.
  After the image has loaded the canvas is 400 by 300.
\<close>

definition exImage :: image where
  "exImage = \<lparr>naturalWidth = 800, naturalHeight = 600\<rparr>"

definition exInit :: state where
  "exInit = initialState 16 80 \<lparr>clientWidth = 432, clientHeight = 632\<rparr> 1 []"

definition exLoaded :: state where
  "exLoaded = imgOnload exImage exInit"

definition exCanvas :: canvas where
  "exCanvas = \<lparr>width = 400, height = 300, style_width = Some 400, style_height = Some 300,
                rect_left = 16, rect_top = 80\<rparr>"




text \<open>
  Zooming the loaded image by a factor of 2 about the middle of the canvas with the wheel,
  then holding the space bar, pressing the mouse at the same place and dragging it 800
  pixels to the right.
\<close>

definition exWheel :: wheel_event where
  "exWheel = \<lparr>w_clientX = 216, w_clientY = 230, deltaX = 0, deltaY = - (ln 2 * 10000 / 15),
              deltaMode = 0, ctrlKey = True, metaKey = False, shiftKey = False\<rparr>"

definition exMiddle :: mouse_event where
  "exMiddle = \<lparr>clientX = 216, clientY = 230\<rparr>"

definition exFarRight :: mouse_event where
  "exFarRight = \<lparr>clientX = 1016, clientY = 230\<rparr>"

definition exZoomed :: state where
  "exZoomed = wheelHandler exWheel exLoaded"

definition exGrabbed :: state where
  "exGrabbed = the (onMouseDown exMiddle (onKeyDown ''Space'' exZoomed))"

definition exPanned :: state where
  "exPanned = the (onMouseMove exFarRight exGrabbed)"

text \<open>
  A gesture that outlives its image: the mouse goes down on the loaded 800 by 600 image at
  the natural point (700, 500); while the button is held, a file that was being read
  arrives (\<^verbatim>\<open>reader.onload\<close>), the effect drops the old image, and an image of 100 by
  100 pixels finishes loading; then the mouse moves to the natural point (5, 5) of the new
  image.
\<close>

definition exSmallImage :: image where
  "exSmallImage = \<lparr>naturalWidth = 100, naturalHeight = 100\<rparr>"

definition exFar :: mouse_event where
  "exFar = \<lparr>clientX = 366, clientY = 330\<rparr>"

definition exNear :: mouse_event where
  "exNear = \<lparr>clientX = 21, clientY = 85\<rparr>"

definition exPressed :: state where
  "exPressed = the (onMouseDown exFar exLoaded)"

definition exReplaced :: state where
  "exReplaced = imgOnload exSmallImage (imageEffectCleanup (readerOnload exPressed))"

definition exRace :: state where
  "exRace = the (onMouseMove exNear exReplaced)"

text \<open>
  A drag on the loaded image from the natural point (100, 100) to (300, 200), and one to
  (103, 103); a state with two boxes.
\<close>

definition exDown :: mouse_event where
  "exDown = \<lparr>clientX = 66, clientY = 130\<rparr>"

definition exMove :: mouse_event where
  "exMove = \<lparr>clientX = 166, clientY = 180\<rparr>"

definition exMoveSmall :: mouse_event where
  "exMoveSmall = \<lparr>clientX = 135 / 2, clientY = 263 / 2\<rparr>"

definition exDrag :: state where
  "exDrag = the (onMouseMove exMove (the (onMouseDown exDown exLoaded)))"

definition exDragSmall :: state where
  "exDragSmall = the (onMouseMove exMoveSmall (the (onMouseDown exDown exLoaded)))"

definition exBoxA :: box where
  "exBoxA = \<lparr>box_id = ''a'', box_x = Fin 100, box_y = Fin 100, box_w = Fin 200, box_h = Fin 100,
             box_name = ''''\<rparr>"

definition exBoxB :: box where
  "exBoxB = \<lparr>box_id = ''b'', box_x = Fin 10, box_y = Fin 20, box_w = Fin 30, box_h = Fin 40,
             box_name = ''Total''\<rparr>"

definition exTwoBoxes :: state where
  "exTwoBoxes = exLoaded\<lparr>boxes := [exBoxA, exBoxB]\<rparr>"

section \<open>Evaluating the concrete states\<close>

lemmas model_defs =
  imgOnload_def initialState_def fitCanvasToContainer_def resetView_def clampPan_def
  getPanBounds_def Let_def dprOf_def parseStylePx_def setStylePx_def setCanvasDim_def
  toUint32_def jeq_def jsub_def jgt_def

lemma exLoaded_eval:
  "exLoaded =
     \<lparr>imageRef = Some exImage, canvasRef = Some exCanvas,
      containerRef = Some \<lparr>clientWidth = 432, clientHeight = 632\<rparr>,
      devicePixelRatio = 1, zoom = Fin 1,
      pan = \<lparr>pt_x = Fin 0, pt_y = Fin 0\<rparr>, panRef = \<lparr>pt_x = Fin 0, pt_y = Fin 0\<rparr>,
      zoomRef = Fin 1, spaceDown = False, isPanning = False,
      panStartRef = \<lparr>pt_x = Fin 0, pt_y = Fin 0\<rparr>, boxes = [],
      isDrawing = False, startPt = None, currentPt = None,
      imageScroll = \<lparr>pt_x = Fin 0, pt_y = Fin 0\<rparr>,
      imageScrollRef = \<lparr>pt_x = Fin 0, pt_y = Fin 0\<rparr>\<rparr>"
  by (simp add: exLoaded_def exInit_def exImage_def exCanvas_def model_defs)

lemma exLoaded_fields [simp]:
  "imageRef exLoaded = Some exImage" "canvasRef exLoaded = Some exCanvas"
  "devicePixelRatio exLoaded = 1" "zoomRef exLoaded = Fin 1" "zoom exLoaded = Fin 1"
  "panRef exLoaded = \<lparr>pt_x = Fin 0, pt_y = Fin 0\<rparr>" "pan exLoaded = \<lparr>pt_x = Fin 0, pt_y = Fin 0\<rparr>"
  "boxes exLoaded = []" "isDrawing exLoaded = False" "spaceDown exLoaded = False"
  "isPanning exLoaded = False" "startPt exLoaded = None" "currentPt exLoaded = None"
  by (simp_all add: exLoaded_eval)

lemma exCanvas_fields [simp]:
  "width exCanvas = 400" "height exCanvas = 300" "rect_left exCanvas = 16"
  "rect_top exCanvas = 80" "style_width exCanvas = Some 400" "style_height exCanvas = Some 300"
  by (simp_all add: exCanvas_def)

lemma exImage_fields [simp]:
  "naturalWidth exImage = 800" "naturalHeight exImage = 600"
  by (simp_all add: exImage_def)

lemma exDown_coords:
  "eventToImageCoords exDown exLoaded = \<lparr>pt_x = Fin 100, pt_y = Fin 100\<rparr>"
  by (simp add: eventToImageCoords_def exDown_def Let_def dprOf_def jsub_def)

lemma exDrag_eval:
  "exDrag = exLoaded\<lparr>startPt := Some \<lparr>pt_x = Fin 100, pt_y = Fin 100\<rparr>,
                     currentPt := Some \<lparr>pt_x = Fin 300, pt_y = Fin 200\<rparr>, isDrawing := True\<rparr>"
  by (simp add: exDrag_def onMouseDown_def onMouseMove_def exDown_coords Let_def)
     (simp add: eventToImageCoords_def exMove_def Let_def dprOf_def jsub_def)

lemma exDragSmall_eval:
  "exDragSmall = exLoaded\<lparr>startPt := Some \<lparr>pt_x = Fin 100, pt_y = Fin 100\<rparr>,
                     currentPt := Some \<lparr>pt_x = Fin 103, pt_y = Fin 103\<rparr>, isDrawing := True\<rparr>"
  by (simp add: exDragSmall_def onMouseDown_def onMouseMove_def exDown_coords Let_def)
     (simp add: eventToImageCoords_def exMoveSmall_def Let_def dprOf_def jsub_def)

lemma exZoomed_eval:
  "exZoomed = exLoaded\<lparr>zoomRef := Fin 2, panRef := \<lparr>pt_x = Fin (- 200), pt_y = Fin (- 150)\<rparr>,
                        zoom := Fin 2, pan := \<lparr>pt_x = Fin (- 200), pt_y = Fin (- 150)\<rparr>\<rparr>"
  by (simp add: exZoomed_def exWheel_def wheelHandler_def zoomAt_def Let_def dprOf_def jsub_def
        jeq_def clampPan_def getPanBounds_def)

lemma exGrabbed_eval:
  "exGrabbed = exZoomed\<lparr>spaceDown := True, isPanning := True,
                         panStartRef := \<lparr>pt_x = Fin 400, pt_y = Fin 300\<rparr>\<rparr>"
  by (simp add: exGrabbed_def exMiddle_def onKeyDown_def onMouseDown_def exZoomed_eval Let_def
        dprOf_def jsub_def)

lemma exPanned_eval:
  "exPanned = exGrabbed\<lparr>panRef := \<lparr>pt_x = Fin 0, pt_y = Fin (- 150)\<rparr>,
                         pan := \<lparr>pt_x = Fin 0, pt_y = Fin (- 150)\<rparr>\<rparr>"
  by (simp add: exPanned_def exFarRight_def onMouseMove_def exGrabbed_eval exZoomed_eval Let_def
        dprOf_def jsub_def clampPan_def getPanBounds_def)




lemma exLoaded_reachable: "reachable exLoaded"
  unfolding exLoaded_def exInit_def
  by (rule reach_step [where a = "ImageLoaded exImage"], rule reach_init) simp


lemma exGrabbed_reachable: "reachable exGrabbed"
proof -
  have "reachable exZoomed"
    by (rule reach_step [OF exLoaded_reachable, where a = "Wheel exWheel"]) (simp add: exZoomed_def)
  then have "reachable (onKeyDown ''Space'' exZoomed)"
    by (rule reach_step [where a = "KeyDown ''Space''"]) simp
  then show ?thesis
    by (rule reach_step [where a = "MouseDown exMiddle"])
       (simp add: exGrabbed_def exMiddle_def onKeyDown_def onMouseDown_def exZoomed_eval Let_def)
qed

lemma exGrabbed_step: "step (MouseMove exFarRight) exGrabbed = Some exPanned"
  by (simp add: exPanned_def exFarRight_def onMouseMove_def exGrabbed_eval exZoomed_eval Let_def)

lemma exPressed_eval:
  "exPressed = exLoaded\<lparr>startPt := Some \<lparr>pt_x = Fin 700, pt_y = Fin 500\<rparr>,
                         currentPt := Some \<lparr>pt_x = Fin 700, pt_y = Fin 500\<rparr>, isDrawing := True\<rparr>"
  by (simp add: exPressed_def exFar_def onMouseDown_def eventToImageCoords_def Let_def dprOf_def
        jsub_def)

lemma exReplaced_eval:
  "exReplaced = exPressed\<lparr>imageRef := Some exSmallImage,
      canvasRef := Some \<lparr>width = 100, height = 100, style_width = Some 100,
                         style_height = Some 100, rect_left = 16, rect_top = 80\<rparr>\<rparr>"
  by (simp add: exReplaced_def exPressed_eval exLoaded_eval exSmallImage_def exCanvas_def
        readerOnload_def imageEffectCleanup_def model_defs)

lemma exRace_eval:
  "exRace = exReplaced\<lparr>currentPt := Some \<lparr>pt_x = Fin 5, pt_y = Fin 5\<rparr>\<rparr>"
  by (simp add: exRace_def exNear_def exReplaced_eval exPressed_eval exSmallImage_def
        onMouseMove_def eventToImageCoords_def Let_def dprOf_def jsub_def)

lemma exRace_reachable: "reachable exRace"
proof -
  have "reachable exPressed"
    by (rule reach_step [OF exLoaded_reachable, where a = "MouseDown exFar"])
       (simp add: exPressed_def onMouseDown_def Let_def)
  then have "reachable (readerOnload exPressed)"
    by (rule reach_step [where a = ReaderLoaded]) simp
  then have "reachable (imageEffectCleanup (readerOnload exPressed))"
    by (rule reach_step [where a = ImageDropped]) simp
  then have "reachable exReplaced"
    unfolding exReplaced_def by (rule reach_step [where a = "ImageLoaded exSmallImage"]) simp
  then show ?thesis
    by (rule reach_step [where a = "MouseMove exNear"])
       (simp add: exRace_def onMouseMove_def exReplaced_eval exPressed_eval)
qed

lemma exDrag_gesture: "gesture exImage exDrag"
proof -
  have down: "onMouseDown exDown exLoaded = Some (the (onMouseDown exDown exLoaded))"
    by (simp add: onMouseDown_def Let_def)
  have "gesture exImage (the (onMouseDown exDown exLoaded))"
    by (rule gesture_begin [OF _ _ down]) simp_all
  moreover have "onMouseMove exMove (the (onMouseDown exDown exLoaded)) = Some exDrag"
    by (simp add: exDrag_def onMouseDown_def onMouseMove_def Let_def)
  ultimately show ?thesis
    by (rule gesture_move)
qed

section \<open>Pan bounds\<close>

text \<open>
  C2. With a canvas, \<^verbatim>\<open>getPanBounds\<close> treats the two axes independently. The content
  size on an axis is the zoom times the canvas dimension. When the content is at most the
  canvas dimension, the minimum and the maximum are both the centred value
  \<open>(viewport - content) / 2\<close>; otherwise the minimum is \<open>viewport - content\<close>, which is
  negative, and the maximum is 0.
\<close>

theorem getPanBounds_axes:
  assumes "canvasRef s = Some canvas"
  shows "let cw = Fin (real (width canvas)); ch = Fin (real (height canvas));
             contentW = jmul z cw; contentH = jmul z ch; b = getPanBounds z s
         in (if jle contentW cw
             then minX b = jdiv (jsub cw contentW) (Fin 2) \<and> maxX b = minX b
             else minX b = jsub cw contentW \<and> maxX b = Fin 0 \<and>
                  (contentW \<noteq> NaN \<longrightarrow> jlt (minX b) (Fin 0))) \<and>
            (if jle contentH ch
             then minY b = jdiv (jsub ch contentH) (Fin 2) \<and> maxY b = minY b
             else minY b = jsub ch contentH \<and> maxY b = Fin 0 \<and>
                  (contentH \<noteq> NaN \<longrightarrow> jlt (minY b) (Fin 0)))"
  using assms
  by (cases z) (auto simp: getPanBounds_def Let_def jsub_def)

theorem getPanBounds_axes_witness:
  "canvasRef exLoaded = Some exCanvas \<and>
   getPanBounds (Fin 2) exLoaded =
     \<lparr>minX = Fin (- 400), maxX = Fin 0, minY = Fin (- 300), maxY = Fin 0\<rparr> \<and>
   getPanBounds (Fin (1 / 2)) exLoaded =
     \<lparr>minX = Fin 100, maxX = Fin 100, minY = Fin 75, maxY = Fin 75\<rparr>"
  using getPanBounds_axes [of exLoaded exCanvas "Fin 2"]
    getPanBounds_axes [of exLoaded exCanvas "Fin (1 / 2)"]
  by (cases "getPanBounds (Fin 2) exLoaded"; cases "getPanBounds (Fin (1 / 2)) exLoaded")
     (simp add: Let_def jsub_def)

section \<open>Clamping into the pan bounds\<close>

lemma finitePt_iff: "finitePt p \<longleftrightarrow> (\<exists>a b. pt_x p = Fin a \<and> pt_y p = Fin b)"
  by (cases "pt_x p"; cases "pt_y p") (simp_all add: finitePt_def isFinite_def)

lemma viewportInv_iff:
  "viewportInv s \<longleftrightarrow>
     (\<exists>z. zoomRef s = Fin z \<and> 1 / 5 \<le> z \<and> z \<le> 8) \<and>
     finitePt (panRef s) \<and> finitePt (panStartRef s) \<and> canvasRef s \<noteq> None \<and>
     pan s = panRef s \<and> zoom s = zoomRef s \<and>
     withinBounds (getPanBounds (zoomRef s) s) (panRef s)"
  by (cases "zoomRef s") (auto simp: viewportInv_def)

lemma clampPan_canvas:
  "canvasRef t = canvasRef s \<Longrightarrow> clampPan z p t = clampPan z p s"
  by (simp add: clampPan_def getPanBounds_def)

lemma jclamp_idem:
  "jmin hi (jmax lo (jmin hi (jmax lo v))) = jmin hi (jmax lo v)"
  by (cases hi; cases lo; cases v) auto

lemma clampPan_idem: "clampPan z (clampPan z p s) s = clampPan z p s"
  by (simp add: clampPan_def Let_def jclamp_idem)

lemma setStylePx_idem: "setStylePx (setStylePx old v) v = setStylePx old v"
  by (cases v) (auto simp: setStylePx_def)

lemma dprOf_real: "dprOf s = Fin (if devicePixelRatio s = 0 then 1 else devicePixelRatio s)"
  by (simp add: dprOf_def)

lemma getPanBounds_Fin:
  assumes "canvasRef s = Some c"
  shows "getPanBounds (Fin z) s =
     \<lparr>minX = Fin (if z * real (width c) \<le> real (width c)
                  then (real (width c) - z * real (width c)) / 2
                  else real (width c) - z * real (width c)),
      maxX = Fin (if z * real (width c) \<le> real (width c)
                  then (real (width c) - z * real (width c)) / 2 else 0),
      minY = Fin (if z * real (height c) \<le> real (height c)
                  then (real (height c) - z * real (height c)) / 2
                  else real (height c) - z * real (height c)),
      maxY = Fin (if z * real (height c) \<le> real (height c)
                  then (real (height c) - z * real (height c)) / 2 else 0)\<rparr>"
  using assms by (simp add: getPanBounds_def Let_def jsub_def)

lemma getPanBounds_ordered:
  "\<exists>a b c d. getPanBounds (Fin z) s = \<lparr>minX = Fin a, maxX = Fin b, minY = Fin c, maxY = Fin d\<rparr>
     \<and> a \<le> b \<and> c \<le> d"
proof (cases "canvasRef s")
  case None
  then have "getPanBounds (Fin z) s = \<lparr>minX = Fin 0, maxX = Fin 0, minY = Fin 0, maxY = Fin 0\<rparr>"
    by (simp add: getPanBounds_def)
  then show ?thesis by blast
next
  case (Some c)
  show ?thesis
    by (rule exI [of _ "if z * real (width c) \<le> real (width c)
                  then (real (width c) - z * real (width c)) / 2
                  else real (width c) - z * real (width c)"],
        rule exI [of _ "if z * real (width c) \<le> real (width c)
                  then (real (width c) - z * real (width c)) / 2 else 0"],
        rule exI [of _ "if z * real (height c) \<le> real (height c)
                  then (real (height c) - z * real (height c)) / 2
                  else real (height c) - z * real (height c)"],
        rule exI [of _ "if z * real (height c) \<le> real (height c)
                  then (real (height c) - z * real (height c)) / 2 else 0"])
       (simp add: getPanBounds_Fin [OF Some])
qed

lemma jclamp_within:
  "a \<le> b \<Longrightarrow> v \<noteq> NaN \<Longrightarrow>
     \<exists>r. jmin (Fin b) (jmax (Fin a) v) = Fin r \<and> a \<le> r \<and> r \<le> b"
  by (cases v) auto

lemma clampPan_within:
  assumes "pt_x p \<noteq> NaN" "pt_y p \<noteq> NaN"
  shows "withinBounds (getPanBounds (Fin z) s) (clampPan (Fin z) p s) \<and>
         finitePt (clampPan (Fin z) p s)"
proof -
  obtain a b c d where b: "getPanBounds (Fin z) s = \<lparr>minX = Fin a, maxX = Fin b, minY = Fin c, maxY = Fin d\<rparr>"
    and le: "a \<le> b" "c \<le> d"
    using getPanBounds_ordered by blast
  obtain r where r: "jmin (Fin b) (jmax (Fin a) (pt_x p)) = Fin r" "a \<le> r" "r \<le> b"
    using jclamp_within [OF le(1) assms(1)] by blast
  obtain t where t: "jmin (Fin d) (jmax (Fin c) (pt_y p)) = Fin t" "c \<le> t" "t \<le> d"
    using jclamp_within [OF le(2) assms(2)] by blast
  show ?thesis
    by (simp add: clampPan_def Let_def b withinBounds_def finitePt_iff r t)
qed

section \<open>Fitting twice\<close>

lemma fit_unfold:
  assumes "canvasRef s = Some c" "containerRef s = Some k" "imageRef s = Some img"
    and "fitNext k img (dprOf s) = (w, h, pw, ph)"
  shows "fitCanvasToContainer s =
     (if jeq (parseStylePx (style_width c)) w \<and> jeq (parseStylePx (style_height c)) h \<and>
         jeq (Fin (real (width c))) pw \<and> jeq (Fin (real (height c))) ph
      then s
      else s\<lparr>canvasRef := Some (c\<lparr>style_width := setStylePx (style_width c) w,
                                  style_height := setStylePx (style_height c) h,
                                  width := setCanvasDim 300 pw, height := setCanvasDim 150 ph\<rparr>),
             imageScrollRef := \<lparr>pt_x = Fin 0, pt_y = Fin 0\<rparr>,
             imageScroll := \<lparr>pt_x = Fin 0, pt_y = Fin 0\<rparr>,
             panRef := clampPan (zoomRef s) (panRef s)
                (s\<lparr>canvasRef := Some (c\<lparr>style_width := setStylePx (style_width c) w,
                                  style_height := setStylePx (style_height c) h,
                                  width := setCanvasDim 300 pw, height := setCanvasDim 150 ph\<rparr>)\<rparr>),
             pan := clampPan (zoomRef s) (panRef s)
                (s\<lparr>canvasRef := Some (c\<lparr>style_width := setStylePx (style_width c) w,
                                  style_height := setStylePx (style_height c) h,
                                  width := setCanvasDim 300 pw, height := setCanvasDim 150 ph\<rparr>)\<rparr>)\<rparr>)"
proof -
  have cl: "clampPan z p (t\<lparr>imageScrollRef := a, imageScroll := b\<rparr>) = clampPan z p t" for z p t a b
    by (simp add: clampPan_def getPanBounds_def)
  show ?thesis
    using assms by (auto simp: fitCanvasToContainer_def fitNext_def Let_def cl)
qed

lemma fit_idempotent:
  "fitCanvasToContainer (fitCanvasToContainer s) = fitCanvasToContainer s"
proof (cases "canvasRef s = None \<or> containerRef s = None \<or> imageRef s = None")
  case True
  then have "fitCanvasToContainer s = s"
    by (auto simp: fitCanvasToContainer_def split: option.splits)
  then show ?thesis by simp
next
  case False
  then obtain c k img where cki: "canvasRef s = Some c" "containerRef s = Some k" "imageRef s = Some img"
    by auto
  obtain w h pw ph where nx: "fitNext k img (dprOf s) = (w, h, pw, ph)"
    by (cases "fitNext k img (dprOf s)") auto
  let ?same = "\<lambda>c. jeq (parseStylePx (style_width c)) w \<and> jeq (parseStylePx (style_height c)) h \<and>
         jeq (Fin (real (width c))) pw \<and> jeq (Fin (real (height c))) ph"
  show ?thesis
  proof (cases "?same c")
    case True
    then have "fitCanvasToContainer s = s"
      using fit_unfold [OF cki nx] by simp
    then show ?thesis by simp
  next
    case nsame: False
    define c' where "c' = c\<lparr>style_width := setStylePx (style_width c) w,
                                  style_height := setStylePx (style_height c) h,
                                  width := setCanvasDim 300 pw, height := setCanvasDim 150 ph\<rparr>"
    define s' where "s' = fitCanvasToContainer s"
    have s': "s' = s\<lparr>canvasRef := Some c',
             imageScrollRef := \<lparr>pt_x = Fin 0, pt_y = Fin 0\<rparr>,
             imageScroll := \<lparr>pt_x = Fin 0, pt_y = Fin 0\<rparr>,
             panRef := clampPan (zoomRef s) (panRef s) (s\<lparr>canvasRef := Some c'\<rparr>),
             pan := clampPan (zoomRef s) (panRef s) (s\<lparr>canvasRef := Some c'\<rparr>)\<rparr>"
      unfolding s'_def c'_def using fit_unfold [OF cki nx] nsame by simp
    have cki': "canvasRef s' = Some c'" "containerRef s' = Some k" "imageRef s' = Some img"
      using cki by (simp_all add: s')
    have nx': "fitNext k img (dprOf s') = (w, h, pw, ph)"
    proof -
      have "dprOf s' = dprOf s" by (simp add: s' dprOf_def)
      then show ?thesis using nx by simp
    qed
    have c'': "c'\<lparr>style_width := setStylePx (style_width c') w,
                  style_height := setStylePx (style_height c') h,
                  width := setCanvasDim 300 pw, height := setCanvasDim 150 ph\<rparr> = c'"
      by (simp add: c'_def setStylePx_idem)
    have pan': "clampPan (zoomRef s') (panRef s') (s'\<lparr>canvasRef := Some c'\<rparr>) = panRef s'"
    proof -
      have "clampPan (zoomRef s') (panRef s') (s'\<lparr>canvasRef := Some c'\<rparr>)
          = clampPan (zoomRef s) (panRef s') (s\<lparr>canvasRef := Some c'\<rparr>)"
        by (rule trans [OF clampPan_canvas]) (simp_all add: s')
      also have "\<dots> = panRef s'"
        by (simp add: s' clampPan_idem)
      finally show ?thesis .
    qed
    have "fitCanvasToContainer s' = s'"
      using fit_unfold [OF cki' nx'] by (simp add: c'' pan') (simp add: s')
    then show ?thesis by (simp add: s'_def)
  qed
qed

text \<open>
  C7. Fitting the canvas a second time, with the container, the image and the device
  pixel ratio as they were, changes nothing: \<^verbatim>\<open>fitCanvasToContainer\<close> is idempotent. When
  the four numbers it computes equal the current style and drawing-buffer size of the
  canvas, it returns at once and the whole state (canvas size, scroll, pan, zoom) is as
  before.
\<close>

theorem fitCanvasToContainer_idempotent:
  "fitCanvasToContainer (fitCanvasToContainer s) = fitCanvasToContainer s \<and>
   (canvasRef s = Some c \<and> containerRef s = Some k \<and> imageRef s = Some img \<and>
    fitNext k img (dprOf s) = (w, h, pw, ph) \<and>
    jeq (parseStylePx (style_width c)) w \<and> jeq (parseStylePx (style_height c)) h \<and>
    jeq (Fin (real (width c))) pw \<and> jeq (Fin (real (height c))) ph \<longrightarrow>
    fitCanvasToContainer s = s)"
proof (intro conjI impI)
  show "fitCanvasToContainer (fitCanvasToContainer s) = fitCanvasToContainer s"
    by (rule fit_idempotent)
next
  assume h: "canvasRef s = Some c \<and> containerRef s = Some k \<and> imageRef s = Some img \<and>
    fitNext k img (dprOf s) = (w, h, pw, ph) \<and>
    jeq (parseStylePx (style_width c)) w \<and> jeq (parseStylePx (style_height c)) h \<and>
    jeq (Fin (real (width c))) pw \<and> jeq (Fin (real (height c))) ph"
  then show "fitCanvasToContainer s = s"
    using fit_unfold [of s c k img w h pw ph] by simp
qed

theorem fitCanvasToContainer_idempotent_witness:
  "canvasRef exLoaded = Some exCanvas \<and>
   containerRef exLoaded = Some \<lparr>clientWidth = 432, clientHeight = 632\<rparr> \<and>
   imageRef exLoaded = Some exImage \<and>
   fitNext \<lparr>clientWidth = 432, clientHeight = 632\<rparr> exImage (dprOf exLoaded) =
     (Fin 400, Fin 300, Fin 400, Fin 300) \<and>
   jeq (parseStylePx (style_width exCanvas)) (Fin 400) \<and>
   jeq (parseStylePx (style_height exCanvas)) (Fin 300) \<and>
   jeq (Fin (real (width exCanvas))) (Fin 400) \<and> jeq (Fin (real (height exCanvas))) (Fin 300) \<and>
   fitCanvasToContainer exLoaded = exLoaded \<and>
   fitCanvasToContainer (exInit\<lparr>imageRef := Some exImage\<rparr>) \<noteq> exInit\<lparr>imageRef := Some exImage\<rparr>"
proof -
  have h: "canvasRef exLoaded = Some exCanvas"
    "containerRef exLoaded = Some \<lparr>clientWidth = 432, clientHeight = 632\<rparr>"
    "imageRef exLoaded = Some exImage"
    "fitNext \<lparr>clientWidth = 432, clientHeight = 632\<rparr> exImage (dprOf exLoaded) =
     (Fin 400, Fin 300, Fin 400, Fin 300)"
    "jeq (parseStylePx (style_width exCanvas)) (Fin 400)"
    "jeq (parseStylePx (style_height exCanvas)) (Fin 300)"
    "jeq (Fin (real (width exCanvas))) (Fin 400)" "jeq (Fin (real (height exCanvas))) (Fin 300)"
    by (simp_all add: exLoaded_eval fitNext_def dprOf_def Let_def parseStylePx_def jeq_def)
  have first: "canvasRef (fitCanvasToContainer (exInit\<lparr>imageRef := Some exImage\<rparr>)) = Some exCanvas"
    by (simp add: exInit_def exImage_def exCanvas_def model_defs)
  have "canvasRef (exInit\<lparr>imageRef := Some exImage\<rparr>) \<noteq> Some exCanvas"
    by (simp add: exInit_def exCanvas_def initialState_def)
  with first have "fitCanvasToContainer (exInit\<lparr>imageRef := Some exImage\<rparr>) \<noteq> exInit\<lparr>imageRef := Some exImage\<rparr>"
    by metis
  then show ?thesis
    using h fitCanvasToContainer_idempotent [of exLoaded exCanvas
        "\<lparr>clientWidth = 432, clientHeight = 632\<rparr>" exImage "Fin 400" "Fin 300" "Fin 400" "Fin 300"]
    by simp
qed

section \<open>The pan stays within its bounds\<close>

lemma getPanBounds_dims:
  "map_option (\<lambda>c. (width c, height c)) (canvasRef t) =
   map_option (\<lambda>c. (width c, height c)) (canvasRef s) \<Longrightarrow>
   getPanBounds z t = getPanBounds z s"
  by (cases "canvasRef t"; cases "canvasRef s") (auto simp: getPanBounds_def)

lemma viewportInv_frame:
  assumes "viewportInv s"
    and "zoomRef t = zoomRef s" "panRef t = panRef s" "panStartRef t = panStartRef s"
    and "pan t = pan s" "zoom t = zoom s"
    and "map_option (\<lambda>c. (width c, height c)) (canvasRef t) =
         map_option (\<lambda>c. (width c, height c)) (canvasRef s)"
  shows "viewportInv t"
proof -
  have "getPanBounds (zoomRef s) t = getPanBounds (zoomRef s) s"
    by (rule getPanBounds_dims) (rule assms(7))
  moreover have "canvasRef t \<noteq> None"
    using assms(1,7) by (cases "canvasRef t") (auto simp: viewportInv_iff)
  ultimately show ?thesis
    using assms(1-6) by (simp add: viewportInv_iff)
qed

lemma viewportInv_clamped:
  assumes "zoomRef t = Fin z" "1 / 5 \<le> z" "z \<le> 8"
    and "panRef t = clampPan (Fin z) p u" "canvasRef u = canvasRef t" "canvasRef t \<noteq> None"
    and "pt_x p \<noteq> NaN" "pt_y p \<noteq> NaN"
    and "finitePt (panStartRef t)" "pan t = panRef t" "zoom t = zoomRef t"
  shows "viewportInv t"
proof -
  have "getPanBounds (Fin z) t = getPanBounds (Fin z) u"
    using assms(5) by (simp add: getPanBounds_def)
  then show ?thesis
    using assms clampPan_within [OF assms(7,8), of z u]
    by (simp add: viewportInv_iff)
qed

lemma resetView_inv: "viewportInv s \<Longrightarrow> viewportInv (resetView s)"
  by (rule viewportInv_clamped [where z = 1 and p = "\<lparr>pt_x = Fin 0, pt_y = Fin 0\<rparr>"
        and u = "s\<lparr>zoomRef := Fin 1, zoom := Fin 1\<rparr>"])
     (simp_all add: resetView_def Let_def viewportInv_iff)

lemma fit_inv:
  assumes "viewportInv s"
  shows "viewportInv (fitCanvasToContainer s)"
proof (cases "canvasRef s = None \<or> containerRef s = None \<or> imageRef s = None")
  case True
  then have "fitCanvasToContainer s = s"
    by (auto simp: fitCanvasToContainer_def split: option.splits)
  then show ?thesis using assms by simp
next
  case False
  then obtain c k img where cki: "canvasRef s = Some c" "containerRef s = Some k" "imageRef s = Some img"
    by auto
  obtain w h pw ph where nx: "fitNext k img (dprOf s) = (w, h, pw, ph)"
    by (cases "fitNext k img (dprOf s)") auto
  obtain z where z: "zoomRef s = Fin z" "1 / 5 \<le> z" "z \<le> 8"
    using assms by (auto simp: viewportInv_iff)
  have fin: "finitePt (panRef s)" "finitePt (panStartRef s)"
    using assms by (auto simp: viewportInv_iff)
  show ?thesis
  proof (cases "fitCanvasToContainer s = s")
    case True
    then show ?thesis using assms by simp
  next
    case False
    define c' where "c' = c\<lparr>style_width := setStylePx (style_width c) w,
                                  style_height := setStylePx (style_height c) h,
                                  width := setCanvasDim 300 pw, height := setCanvasDim 150 ph\<rparr>"
    have s': "fitCanvasToContainer s = s\<lparr>canvasRef := Some c',
             imageScrollRef := \<lparr>pt_x = Fin 0, pt_y = Fin 0\<rparr>,
             imageScroll := \<lparr>pt_x = Fin 0, pt_y = Fin 0\<rparr>,
             panRef := clampPan (zoomRef s) (panRef s) (s\<lparr>canvasRef := Some c'\<rparr>),
             pan := clampPan (zoomRef s) (panRef s) (s\<lparr>canvasRef := Some c'\<rparr>)\<rparr>"
      unfolding c'_def using fit_unfold [OF cki nx] False by (simp split: if_splits)
    show ?thesis
      by (rule viewportInv_clamped [where z = z and p = "panRef s" and u = "s\<lparr>canvasRef := Some c'\<rparr>"])
         (use z fin assms in \<open>auto simp: s' finitePt_iff viewportInv_iff\<close>)
  qed
qed

lemma zoomAt_inv:
  assumes "viewportInv s" "f \<noteq> NaN"
  shows "viewportInv (zoomAt (Fin mx) (Fin my) f s)"
proof -
  obtain z where z: "zoomRef s = Fin z" "1 / 5 \<le> z" "z \<le> 8"
    using assms by (auto simp: viewportInv_iff)
  obtain px py where p: "panRef s = \<lparr>pt_x = Fin px, pt_y = Fin py\<rparr>"
    using assms(1) by (cases "panRef s") (auto simp: viewportInv_iff finitePt_iff)
  define z' where "z' = (case f of Fin r \<Rightarrow> min 8 (max (1 / 5) (z * r)) | PInf \<Rightarrow> 8 | _ \<Rightarrow> 1 / 5)"
  have z': "jmin (Fin 8) (jmax (Fin (1 / 5)) (jmul (Fin z) f)) = Fin z'"
    "1 / 5 \<le> z'" "z' \<le> 8"
    using assms(2) z by (cases f; simp add: z'_def)+
  show ?thesis
  proof (cases "z' = z")
    case True
    then have "zoomAt (Fin mx) (Fin my) f s = s"
      by (simp add: zoomAt_def Let_def z z' jeq_def)
    then show ?thesis using assms by simp
  next
    case False
    show ?thesis
      by (rule viewportInv_clamped [where z = z' and u = s
            and p = "\<lparr>pt_x = Fin (mx - (mx - px) * z' / z), pt_y = Fin (my - (my - py) * z' / z)\<rparr>"])
         (use z z' p False assms(1) in \<open>auto simp: zoomAt_def Let_def jeq_def jsub_def viewportInv_iff\<close>)
  qed
qed

lemma wheelHandler_inv:
  assumes "viewportInv s"
  shows "viewportInv (wheelHandler e s)"
proof -
  obtain c where c: "canvasRef s = Some c"
    using assms by (auto simp: viewportInv_iff)
  obtain z where z: "zoomRef s = Fin z" "1 / 5 \<le> z" "z \<le> 8"
    using assms by (auto simp: viewportInv_iff)
  obtain px py where p: "panRef s = \<lparr>pt_x = Fin px, pt_y = Fin py\<rparr>"
    using assms(1) by (cases "panRef s") (auto simp: viewportInv_iff finitePt_iff)
  consider (zoom) "ctrlKey e \<or> metaKey e"
    | (pan) "\<not> (ctrlKey e \<or> metaKey e)" "spaceDown s"
    | (scroll) "\<not> (ctrlKey e \<or> metaKey e)" "\<not> spaceDown s"
    by blast
  then show ?thesis
  proof cases
    case zoom
    obtain mx my where m: "jmul (jsub (Fin (w_clientX e)) (Fin (rect_left c))) (dprOf s) = Fin mx"
      "jmul (jsub (Fin (w_clientY e)) (Fin (rect_top c))) (dprOf s) = Fin my"
      by (simp add: dprOf_real jsub_def)
    have "wheelHandler e s = zoomAt (Fin mx) (Fin my) (Fin (exp (- deltaY e * (15 / 10000)))) s"
      using zoom by (simp add: wheelHandler_def c Let_def m)
    then show ?thesis
      using zoomAt_inv [OF assms, of "Fin (exp (- deltaY e * (15 / 10000)))" mx my] by simp
  next
    case pan
    show ?thesis
      by (rule viewportInv_clamped [where z = z and u = s
            and p = "\<lparr>pt_x = jsub (pt_x (panRef s))
                             (jmul (if shiftKey e then Fin (deltaY e) else Fin (deltaX e))
                                   (if deltaMode e = 1 then Fin 16 else Fin 1)),
                      pt_y = jsub (pt_y (panRef s))
                             (jmul (if shiftKey e then Fin 0 else Fin (deltaY e))
                                   (if deltaMode e = 1 then Fin 16 else Fin 1))\<rparr>"])
         (use pan z p c assms in \<open>auto simp: wheelHandler_def Let_def jsub_def viewportInv_iff\<close>)
  next
    case scroll
    then have "wheelHandler e s = s"
      by (simp add: wheelHandler_def c)
    then show ?thesis using assms by simp
  qed
qed

lemma onMouseMove_inv:
  assumes "viewportInv s" "onMouseMove e s = Some s'"
  shows "viewportInv s'"
proof -
  obtain c where c: "canvasRef s = Some c"
    using assms by (auto simp: viewportInv_iff)
  obtain z where z: "zoomRef s = Fin z" "1 / 5 \<le> z" "z \<le> 8"
    using assms by (auto simp: viewportInv_iff)
  obtain qx qy where q: "panStartRef s = \<lparr>pt_x = Fin qx, pt_y = Fin qy\<rparr>"
    using assms(1) by (cases "panStartRef s") (auto simp: viewportInv_iff finitePt_iff)
  show ?thesis
  proof (cases "isPanning s")
    case True
    define raw where "raw = \<lparr>pt_x = jsub (jmul (jsub (Fin (clientX e)) (Fin (rect_left c))) (dprOf s))
                                    (pt_x (panStartRef s)),
                        pt_y = jsub (jmul (jsub (Fin (clientY e)) (Fin (rect_top c))) (dprOf s))
                                    (pt_y (panStartRef s))\<rparr>"
    have s': "s' = s\<lparr>panRef := clampPan (zoomRef s) raw s, pan := clampPan (zoomRef s) raw s\<rparr>"
      using assms(2) True by (simp add: onMouseMove_def c Let_def raw_def)
    show ?thesis
      by (rule viewportInv_clamped [where z = z and u = s and p = raw])
         (use z q c assms(1) in \<open>auto simp: s' raw_def dprOf_def jsub_def viewportInv_iff\<close>)
  next
    case False
    show ?thesis
      by (rule viewportInv_frame [OF assms(1)])
         (use assms(2) False in \<open>auto simp: onMouseMove_def split: if_splits\<close>)
  qed
qed

lemma onMouseDown_inv:
  assumes "viewportInv s" "onMouseDown e s = Some s'"
  shows "viewportInv s'"
proof -
  obtain c where c: "canvasRef s = Some c"
    using assms by (auto simp: viewportInv_iff)
  obtain px py where p: "panRef s = \<lparr>pt_x = Fin px, pt_y = Fin py\<rparr>"
    using assms(1) by (cases "panRef s") (auto simp: viewportInv_iff finitePt_iff)
  have "viewportInv (s\<lparr>isPanning := True, panStartRef := \<lparr>pt_x = Fin a, pt_y = Fin b\<rparr>\<rparr>)" for a b
    using assms(1) by (simp add: viewportInv_iff finitePt_iff getPanBounds_def)
  moreover have "viewportInv (s\<lparr>startPt := Some pt, currentPt := Some pt, isDrawing := True\<rparr>)" for pt
    by (rule viewportInv_frame [OF assms(1)]) simp_all
  ultimately show ?thesis
    using assms c p
    by (auto simp: onMouseDown_def Let_def dprOf_def jsub_def split: if_splits)
qed

lemma step_inv:
  assumes "viewportInv s" "step a s = Some s'"
  shows "viewportInv s'"
proof (cases a)
  case (MouseDown e)
  then show ?thesis using assms onMouseDown_inv by auto
next
  case (MouseMove e)
  then show ?thesis using assms onMouseMove_inv by auto
next
  case (MouseUp u)
  have "viewportInv (endInteractions u s)"
    by (rule viewportInv_frame [OF assms(1)])
       (auto simp: endInteractions_def Let_def split: option.splits bool.splits)
  then show ?thesis using assms MouseUp by auto
next
  case (MouseLeave u)
  have "viewportInv (endInteractions u s)"
    by (rule viewportInv_frame [OF assms(1)])
       (auto simp: endInteractions_def Let_def split: option.splits bool.splits)
  then show ?thesis using assms MouseLeave by auto
next
  case (Wheel e)
  then show ?thesis using assms wheelHandler_inv by auto
next
  case (KeyDown code)
  have "viewportInv (onKeyDown code s)"
    by (rule viewportInv_frame [OF assms(1)]) (simp_all add: onKeyDown_def)
  then show ?thesis using assms KeyDown by auto
next
  case (KeyUp code)
  have "viewportInv (onKeyUp code s)"
    by (rule viewportInv_frame [OF assms(1)]) (simp_all add: onKeyUp_def)
  then show ?thesis using assms KeyUp by auto
next
  case ResetViewClick
  then show ?thesis using assms resetView_inv by auto
next
  case ContainerResized
  then show ?thesis using assms fit_inv by auto
next
  case ReaderLoaded
  have "viewportInv (s\<lparr>boxes := []\<rparr>)"
    by (rule viewportInv_frame [OF assms(1)]) simp_all
  then have "viewportInv (resetView (s\<lparr>boxes := []\<rparr>))"
    by (rule resetView_inv)
  then show ?thesis using assms ReaderLoaded by (auto simp: readerOnload_def)
next
  case (ImageLoaded img)
  have "viewportInv (s\<lparr>imageRef := Some img\<rparr>)"
    by (rule viewportInv_frame [OF assms(1)]) simp_all
  then have "viewportInv (imgOnload img s)"
    unfolding imgOnload_def by (intro resetView_inv fit_inv)
  then show ?thesis using assms ImageLoaded by auto
next
  case ClearAllClick
  have "viewportInv (s\<lparr>boxes := []\<rparr>)"
    by (rule viewportInv_frame [OF assms(1)]) simp_all
  then have "viewportInv (resetView (s\<lparr>boxes := []\<rparr>))"
    by (rule resetView_inv)
  then show ?thesis using assms ClearAllClick by (auto simp: clearAll_def)
next
  case ImageDropped
  have "viewportInv (imageEffectCleanup s)"
    by (rule viewportInv_frame [OF assms(1)]) (simp_all add: imageEffectCleanup_def)
  then show ?thesis using assms ImageDropped by auto
next
  case (RenameBox i name)
  have "viewportInv (updateBoxName i name s)"
    by (rule viewportInv_frame [OF assms(1)]) (simp_all add: updateBoxName_def)
  then show ?thesis using assms RenameBox by auto
next
  case (RemoveBox i)
  have "viewportInv (deleteBox i s)"
    by (rule viewportInv_frame [OF assms(1)]) (simp_all add: deleteBox_def)
  then show ?thesis using assms RemoveBox by auto
next
  case (Layout cont rl rt ratio)
  have "viewportInv (s\<lparr>containerRef := Some cont,
             canvasRef := map_option (\<lambda>c. c\<lparr>rect_left := rl, rect_top := rt\<rparr>) (canvasRef s),
             devicePixelRatio := ratio\<rparr>)"
    by (rule viewportInv_frame [OF assms(1)]) (simp_all add: option.map_comp comp_def)
  then show ?thesis using assms Layout by auto
qed

lemma init_inv: "viewportInv (initialState rl rt cont ratio stored)"
  by (simp add: viewportInv_iff initialState_def finitePt_iff getPanBounds_def withinBounds_def
      Let_def jsub_def)

lemma reachable_inv: "reachable s \<Longrightarrow> viewportInv s"
  by (induction rule: reachable.induct) (auto intro: init_inv step_inv)

lemma through_clampI:
  assumes "panRef s' = clampPan z raw u" "zoomRef s' = z" "canvasRef s' = canvasRef u"
  shows "panRef s' = panRef s \<or> (\<exists>raw. panRef s' = clampPan (zoomRef s') raw s')"
proof -
  have "clampPan z raw u = clampPan z raw s'"
    using assms(3) by (simp add: clampPan_def getPanBounds_def)
  then show ?thesis using assms(1,2) by auto
qed

lemma resetView_through:
  "panRef (resetView s) = panRef s0 \<or>
   (\<exists>raw. panRef (resetView s) = clampPan (zoomRef (resetView s)) raw (resetView s))"
  by (rule through_clampI [where z = "Fin 1" and raw = "\<lparr>pt_x = Fin 0, pt_y = Fin 0\<rparr>"
        and u = "s\<lparr>zoomRef := Fin 1, zoom := Fin 1\<rparr>"])
     (simp_all add: resetView_def Let_def)

lemma fit_through:
  "panRef (fitCanvasToContainer s) = panRef s \<or>
   (\<exists>raw. panRef (fitCanvasToContainer s) =
      clampPan (zoomRef (fitCanvasToContainer s)) raw (fitCanvasToContainer s))"
proof (cases "fitCanvasToContainer s = s")
  case True
  then show ?thesis by simp
next
  case False
  then obtain c k img where cki: "canvasRef s = Some c" "containerRef s = Some k" "imageRef s = Some img"
    by (auto simp: fitCanvasToContainer_def split: option.splits)
  obtain w h pw ph where nx: "fitNext k img (dprOf s) = (w, h, pw, ph)"
    by (cases "fitNext k img (dprOf s)") auto
  define c' where "c' = c\<lparr>style_width := setStylePx (style_width c) w,
                                  style_height := setStylePx (style_height c) h,
                                  width := setCanvasDim 300 pw, height := setCanvasDim 150 ph\<rparr>"
  have s': "fitCanvasToContainer s = s\<lparr>canvasRef := Some c',
             imageScrollRef := \<lparr>pt_x = Fin 0, pt_y = Fin 0\<rparr>,
             imageScroll := \<lparr>pt_x = Fin 0, pt_y = Fin 0\<rparr>,
             panRef := clampPan (zoomRef s) (panRef s) (s\<lparr>canvasRef := Some c'\<rparr>),
             pan := clampPan (zoomRef s) (panRef s) (s\<lparr>canvasRef := Some c'\<rparr>)\<rparr>"
    unfolding c'_def using fit_unfold [OF cki nx] False by (simp split: if_splits)
  show ?thesis
    by (rule through_clampI [where z = "zoomRef s" and raw = "panRef s"
          and u = "s\<lparr>canvasRef := Some c'\<rparr>"])
       (simp_all add: s')
qed

lemma zoomAt_through:
  "panRef (zoomAt mx my f s) = panRef s \<or>
   (\<exists>raw. panRef (zoomAt mx my f s) = clampPan (zoomRef (zoomAt mx my f s)) raw (zoomAt mx my f s))"
proof (cases "zoomAt mx my f s = s")
  case True
  then show ?thesis by simp
next
  case False
  define newZ where "newZ = jmin (Fin 8) (jmax (Fin (1 / 5)) (jmul (zoomRef s) f))"
  define raw where "raw = \<lparr>pt_x = jsub mx (jdiv (jmul (jsub mx (pt_x (panRef s))) newZ) (zoomRef s)),
                            pt_y = jsub my (jdiv (jmul (jsub my (pt_y (panRef s))) newZ) (zoomRef s))\<rparr>"
  have s': "zoomAt mx my f s =
      s\<lparr>zoomRef := newZ, panRef := clampPan newZ raw s, zoom := newZ, pan := clampPan newZ raw s\<rparr>"
    using False by (simp add: zoomAt_def Let_def newZ_def raw_def split: if_splits)
  show ?thesis
    by (rule through_clampI [where z = newZ and raw = raw and u = s]) (simp_all add: s')
qed

lemma wheelHandler_through:
  "panRef (wheelHandler e s) = panRef s \<or>
   (\<exists>raw. panRef (wheelHandler e s) = clampPan (zoomRef (wheelHandler e s)) raw (wheelHandler e s))"
proof (cases "canvasRef s")
  case None
  then show ?thesis by (simp add: wheelHandler_def)
next
  case (Some c)
  consider (zoom) "ctrlKey e \<or> metaKey e"
    | (pan) "\<not> (ctrlKey e \<or> metaKey e)" "spaceDown s"
    | (scroll) "\<not> (ctrlKey e \<or> metaKey e)" "\<not> spaceDown s"
    by blast
  then show ?thesis
  proof cases
    case zoom
    then show ?thesis
      using zoomAt_through by (simp add: wheelHandler_def Some Let_def)
  next
    case pan
    show ?thesis
      by (rule through_clampI [where z = "zoomRef s" and u = s
            and raw = "\<lparr>pt_x = jsub (pt_x (panRef s))
                             (jmul (if shiftKey e then Fin (deltaY e) else Fin (deltaX e))
                                   (if deltaMode e = 1 then Fin 16 else Fin 1)),
                      pt_y = jsub (pt_y (panRef s))
                             (jmul (if shiftKey e then Fin 0 else Fin (deltaY e))
                                   (if deltaMode e = 1 then Fin 16 else Fin 1))\<rparr>"])
         (use pan in \<open>simp_all add: wheelHandler_def Some Let_def\<close>)
  next
    case scroll
    then show ?thesis by (simp add: wheelHandler_def Some)
  qed
qed

lemma onMouseMove_through:
  assumes "onMouseMove e s = Some s'"
  shows "panRef s' = panRef s \<or> (\<exists>raw. panRef s' = clampPan (zoomRef s') raw s')"
proof (cases "isPanning s")
  case True
  then obtain c where c: "canvasRef s = Some c"
    using assms by (cases "canvasRef s") (auto simp: onMouseMove_def)
  define raw where "raw = \<lparr>pt_x = jsub (jmul (jsub (Fin (clientX e)) (Fin (rect_left c))) (dprOf s))
                                    (pt_x (panStartRef s)),
                        pt_y = jsub (jmul (jsub (Fin (clientY e)) (Fin (rect_top c))) (dprOf s))
                                    (pt_y (panStartRef s))\<rparr>"
  have s': "s' = s\<lparr>panRef := clampPan (zoomRef s) raw s, pan := clampPan (zoomRef s) raw s\<rparr>"
    using assms True by (simp add: onMouseMove_def c Let_def raw_def)
  show ?thesis
    by (rule through_clampI [where z = "zoomRef s" and raw = raw and u = s]) (simp_all add: s')
next
  case False
  then show ?thesis
    using assms by (auto simp: onMouseMove_def split: if_splits)
qed

lemma step_through:
  assumes "step a s = Some s'"
  shows "panRef s' = panRef s \<or> (\<exists>raw. panRef s' = clampPan (zoomRef s') raw s')"
proof (cases a)
  case (MouseDown e)
  then have "panRef s' = panRef s"
    using assms by (auto simp: onMouseDown_def Let_def split: if_splits option.splits)
  then show ?thesis ..
next
  case (MouseMove e)
  then show ?thesis using assms onMouseMove_through by auto
next
  case (MouseUp u)
  then have "panRef s' = panRef s"
    using assms by (auto simp: endInteractions_def Let_def split: option.splits bool.splits)
  then show ?thesis ..
next
  case (MouseLeave u)
  then have "panRef s' = panRef s"
    using assms by (auto simp: endInteractions_def Let_def split: option.splits bool.splits)
  then show ?thesis ..
next
  case (Wheel e)
  then show ?thesis using assms wheelHandler_through by auto
next
  case (KeyDown code)
  then show ?thesis using assms by (auto simp: onKeyDown_def)
next
  case (KeyUp code)
  then show ?thesis using assms by (auto simp: onKeyUp_def)
next
  case ResetViewClick
  then show ?thesis using assms resetView_through by auto
next
  case ContainerResized
  then show ?thesis using assms fit_through by auto
next
  case ReaderLoaded
  then show ?thesis using assms resetView_through by (auto simp: readerOnload_def)
next
  case (ImageLoaded img)
  then show ?thesis using assms resetView_through by (auto simp: imgOnload_def)
next
  case ClearAllClick
  then show ?thesis using assms resetView_through by (auto simp: clearAll_def)
next
  case ImageDropped
  then show ?thesis using assms by (auto simp: imageEffectCleanup_def)
next
  case (RenameBox i name)
  then show ?thesis using assms by (auto simp: updateBoxName_def)
next
  case (RemoveBox i)
  then show ?thesis using assms by (auto simp: deleteBox_def)
next
  case (Layout cont rl rt ratio)
  then show ?thesis using assms by auto
qed

text \<open>
  C1. In every state the component can reach, the pan lies within the bounds that
  \<^verbatim>\<open>getPanBounds\<close> returns for the current zoom and canvas size, and the React state
  mirrors the two refs. Whatever happens next (zoom by wheel, pan by drag or by wheel, a
  resize, a reset, or anything else), the pan lies within the bounds of the zoom and the
  canvas as they are afterwards, and it has either not been written or is the result of
  \<^verbatim>\<open>clampPan\<close> for the zoom in effect afterwards.
\<close>

theorem pan_within_bounds:
  assumes "reachable s"
  shows "withinBounds (getPanBounds (zoomRef s) s) (panRef s) \<and> pan s = panRef s \<and>
         zoom s = zoomRef s \<and>
         (\<forall>a s'. step a s = Some s' \<longrightarrow>
            withinBounds (getPanBounds (zoomRef s') s') (panRef s') \<and>
            (panRef s' = panRef s \<or> (\<exists>raw. panRef s' = clampPan (zoomRef s') raw s')))"
proof -
  have "viewportInv s"
    using assms by (rule reachable_inv)
  moreover have "viewportInv s'" if "step a s = Some s'" for a s'
    using \<open>viewportInv s\<close> that by (rule step_inv)
  ultimately show ?thesis
    using step_through by (auto simp: viewportInv_iff)
qed

theorem pan_within_bounds_witness:
  "reachable exGrabbed \<and> step (MouseMove exFarRight) exGrabbed = Some exPanned \<and>
   zoomRef exPanned = Fin 2 \<and>
   getPanBounds (zoomRef exPanned) exPanned =
     \<lparr>minX = Fin (- 400), maxX = Fin 0, minY = Fin (- 300), maxY = Fin 0\<rparr> \<and>
   panRef exPanned = \<lparr>pt_x = Fin 0, pt_y = Fin (- 150)\<rparr> \<and>
   withinBounds (getPanBounds (zoomRef exPanned) exPanned) (panRef exPanned) \<and>
   withinBounds (getPanBounds (zoomRef exGrabbed) exGrabbed) (panRef exGrabbed)"
proof -
  have bef: "withinBounds (getPanBounds (zoomRef exGrabbed) exGrabbed) (panRef exGrabbed)"
    using pan_within_bounds [OF exGrabbed_reachable] by blast
  have aft: "withinBounds (getPanBounds (zoomRef exPanned) exPanned) (panRef exPanned)"
    using pan_within_bounds [OF exGrabbed_reachable] exGrabbed_step by blast
  have vals: "zoomRef exPanned = Fin 2" "panRef exPanned = \<lparr>pt_x = Fin 0, pt_y = Fin (- 150)\<rparr>"
    "getPanBounds (Fin 2) exPanned =
       \<lparr>minX = Fin (- 400), maxX = Fin 0, minY = Fin (- 300), maxY = Fin 0\<rparr>"
    by (simp_all add: exPanned_eval exGrabbed_eval exZoomed_eval getPanBounds_def Let_def jsub_def)
  show ?thesis
    using exGrabbed_reachable exGrabbed_step bef aft by (simp add: vals)
qed

section \<open>The zoom factor is clamped\<close>

text \<open>
  C3. After a zoom request the zoom is the old zoom times the factor, clamped into
  \<open>[0.2, 8]\<close>: a request beyond the range is not rejected, it yields the nearest bound.
  A factor that takes the product to 8 or more gives 8, one that takes it to 0.2 or less
  gives 0.2. The wheel handler, with Ctrl or Cmd held, requests the factor
  \<open>exp (- deltaY * 0.0015)\<close>.
\<close>

theorem zoomAt_clamps_zoom:
  "zoomRef (zoomAt mx my f s) = jmin (Fin 8) (jmax (Fin (1 / 5)) (jmul (zoomRef s) f)) \<and>
   (zoomRef s = Fin z \<and> f = Fin r \<and> 8 \<le> z * r \<longrightarrow>
      zoomRef (zoomAt mx my f s) = Fin 8) \<and>
   (zoomRef s = Fin z \<and> f = Fin r \<and> z * r \<le> 1 / 5 \<longrightarrow>
      zoomRef (zoomAt mx my f s) = Fin (1 / 5)) \<and>
   (canvasRef s \<noteq> None \<and> (ctrlKey e \<or> metaKey e) \<longrightarrow>
      zoomRef (wheelHandler e s) =
        jmin (Fin 8) (jmax (Fin (1 / 5)) (jmul (zoomRef s) (Fin (exp (- deltaY e * (15 / 10000)))))))"
proof -
  have clamp: "zoomRef (zoomAt mx my f s) = jmin (Fin 8) (jmax (Fin (1 / 5)) (jmul (zoomRef s) f))"
    for mx my f
    by (simp add: zoomAt_def Let_def jeq_def)
  have wheel: "zoomRef (wheelHandler e s) =
        jmin (Fin 8) (jmax (Fin (1 / 5)) (jmul (zoomRef s) (Fin (exp (- deltaY e * (15 / 10000))))))"
    if "canvasRef s \<noteq> None" "ctrlKey e \<or> metaKey e"
    using that by (auto simp: wheelHandler_def Let_def clamp split: option.splits)
  show ?thesis
    using wheel by (auto simp: clamp)
qed

theorem zoomAt_clamps_zoom_witness:
  "zoomRef exLoaded = Fin 1 \<and> (8::real) \<le> 1 * 1000000000 \<and>
   zoomRef (zoomAt (Fin 200) (Fin 150) (Fin 1000000000) exLoaded) = Fin 8 \<and>
   (1::real) * (1 / 1000000000) \<le> 1 / 5 \<and>
   zoomRef (zoomAt (Fin 200) (Fin 150) (Fin (1 / 1000000000)) exLoaded) = Fin (1 / 5) \<and>
   zoomRef (zoomAt (Fin 200) (Fin 150) (Fin 3) exLoaded) = Fin 3 \<and>
   canvasRef exLoaded \<noteq> None \<and>
   zoomRef (wheelHandler \<lparr>w_clientX = 216, w_clientY = 230, deltaX = 0, deltaY = 0, deltaMode = 0,
                           ctrlKey = True, metaKey = False, shiftKey = False\<rparr> exLoaded) = Fin 1"
  using zoomAt_clamps_zoom [of "Fin 200" "Fin 150" "Fin 1000000000" exLoaded 1 1000000000]
    zoomAt_clamps_zoom [of "Fin 200" "Fin 150" "Fin (1 / 1000000000)" exLoaded 1 "1 / 1000000000"]
    zoomAt_clamps_zoom [of "Fin 200" "Fin 150" "Fin 3" exLoaded 1 3
      "\<lparr>w_clientX = 216, w_clientY = 230, deltaX = 0, deltaY = 0, deltaMode = 0,
        ctrlKey = True, metaKey = False, shiftKey = False\<rparr>"]
  by simp

section \<open>The natural point of a pointer event\<close>

lemma clamp_round_Fin:
  "jmax (Fin 0) (jmin (Fin (real n)) (jround (Fin r))) =
     Fin (of_int (max 0 (min (int n) \<lfloor>r + 1 / 2\<rfloor>)))"
  by (simp add: max_def min_def)





section \<open>Committing a drawing gesture\<close>

text \<open>
  C5. Ending the interaction while a gesture with start point \<open>(sx, sy)\<close> and current
  point \<open>(cx, cy)\<close> is in progress appends exactly one box, with the supplied fresh
  identifier, the empty name, \<open>x = min(sx, cx)\<close>, \<open>y = min(sy, cy)\<close>, \<open>w = |cx - sx|\<close>
  and \<open>h = |cy - sy|\<close>, if and only if \<open>w > 5\<close> and \<open>h > 5\<close>; otherwise the boxes stay
  as they are. (The second conjunct says the same for points whose coordinates are any
  JavaScript numbers, in the functions of the language.) Without a gesture in progress the
  boxes stay as they are too. In every case no gesture is in progress afterwards.
\<close>

theorem endInteractions_commit:
  "(isDrawing s \<and> startPt s = Some \<lparr>pt_x = Fin sx, pt_y = Fin sy\<rparr> \<and>
    currentPt s = Some \<lparr>pt_x = Fin cx, pt_y = Fin cy\<rparr> \<longrightarrow>
      boxes (endInteractions uuid s) =
        (if 5 < \<bar>cx - sx\<bar> \<and> 5 < \<bar>cy - sy\<bar>
         then boxes s @
              [\<lparr>box_id = uuid, box_x = Fin (min sx cx), box_y = Fin (min sy cy),
                box_w = Fin \<bar>cx - sx\<bar>, box_h = Fin \<bar>cy - sy\<bar>, box_name = ''''\<rparr>]
         else boxes s)) \<and>
   (isDrawing s \<and> startPt s = Some sp \<and> currentPt s = Some cp \<longrightarrow>
      boxes (endInteractions uuid s) =
        (if jgt (jabs (jsub (pt_x cp) (pt_x sp))) (Fin 5) \<and>
            jgt (jabs (jsub (pt_y cp) (pt_y sp))) (Fin 5)
         then boxes s @
              [\<lparr>box_id = uuid, box_x = jmin (pt_x sp) (pt_x cp), box_y = jmin (pt_y sp) (pt_y cp),
                box_w = jabs (jsub (pt_x cp) (pt_x sp)), box_h = jabs (jsub (pt_y cp) (pt_y sp)),
                box_name = ''''\<rparr>]
         else boxes s)) \<and>
   (\<not> isDrawing s \<or> startPt s = None \<or> currentPt s = None \<longrightarrow>
      boxes (endInteractions uuid s) = boxes s) \<and>
   \<not> isDrawing (endInteractions uuid s)"
  by (auto simp: endInteractions_def Let_def jsub_def jgt_def split: option.splits bool.splits)

theorem endInteractions_commit_witness:
  "isDrawing exDrag \<and> startPt exDrag = Some \<lparr>pt_x = Fin 100, pt_y = Fin 100\<rparr> \<and>
   currentPt exDrag = Some \<lparr>pt_x = Fin 300, pt_y = Fin 200\<rparr> \<and>
   boxes (endInteractions ''a'' exDrag) = [exBoxA] \<and>
   isDrawing exDragSmall \<and> startPt exDragSmall = Some \<lparr>pt_x = Fin 100, pt_y = Fin 100\<rparr> \<and>
   currentPt exDragSmall = Some \<lparr>pt_x = Fin 103, pt_y = Fin 103\<rparr> \<and>
   boxes (endInteractions ''a'' exDragSmall) = [] \<and>
   startPt exTwoBoxes = None \<and>
   boxes (endInteractions ''c'' exTwoBoxes) = [exBoxA, exBoxB]"
  using endInteractions_commit [where s = exDrag and sx = 100 and sy = 100 and cx = 300
      and cy = 200 and uuid = "''a''"]
    endInteractions_commit [where s = exDragSmall and sx = 100 and sy = 100 and cx = 103
      and cy = 103 and uuid = "''a''"]
    endInteractions_commit [where s = exTwoBoxes and uuid = "''c''"]
  by (simp add: exDrag_eval exDragSmall_eval exTwoBoxes_def exBoxA_def)

section \<open>Committed boxes and the image\<close>

text \<open>
  C10. The claim: every box committed through the gesture lifecycle has integer coordinates
  and lies within the image, \<open>0 \<le> x\<close>, \<open>0 \<le> y\<close>, \<open>x + w \<le> naturalWidth\<close> and
  \<open>y + h \<le> naturalHeight\<close>. The code breaks it. \<^verbatim>\<open>reader.onload\<close> and \<^verbatim>\<open>img.onload\<close>
  reset what belongs to the previous image (the boxes, the exported JSON, the view) but
  leave \<^verbatim>\<open>isDrawing\<close>, \<^verbatim>\<open>startPt\<close> and \<^verbatim>\<open>currentPt\<close> as they are, so a gesture begun on
  the previous image goes on over the new one. In the reachable state \<open>exRace\<close> the start
  point (700, 500) was taken on an image of 800 by 600 and the current point (5, 5) on the
  image of 100 by 100 that replaced it; releasing the mouse commits the box
  \<open>x = 5, y = 5, w = 695, h = 495\<close> for the new image, and \<open>x + w = 700\<close> exceeds its
  width 100, \<open>y + h = 500\<close> its height 100.
\<close>

theorem stale_gesture_box_outside_image:
  "reachable exRace \<and> imageRef exRace = Some exSmallImage \<and>
   naturalWidth exSmallImage = 100 \<and> naturalHeight exSmallImage = 100 \<and>
   boxes (endInteractions ''r'' exRace) =
     [\<lparr>box_id = ''r'', box_x = Fin 5, box_y = Fin 5, box_w = Fin 695, box_h = Fin 495,
       box_name = ''''\<rparr>] \<and>
   \<not> (5 + 695 \<le> real (naturalWidth exSmallImage)) \<and>
   \<not> (5 + 495 \<le> real (naturalHeight exSmallImage))"
  using exRace_reachable
  by (simp add: exRace_eval exReplaced_eval exPressed_eval exSmallImage_def endInteractions_def
        Let_def jsub_def jgt_def readerOnload_def)

text \<open>
  The clamping itself does what it is meant to do. The lemmas that follow show that when
  the image is not replaced by another one during the gesture (it may be dropped), ending
  the gesture either leaves the boxes as they are or appends exactly one box with integer
  coordinates that lies within that image.
\<close>

lemma naturalCoord_iff:
  "naturalCoord n v \<longleftrightarrow> v = NaN \<or> (\<exists>k::int. v = Fin (of_int k) \<and> 0 \<le> k \<and> k \<le> int n)"
proof (cases v)
  case (Fin r)
  show ?thesis
  proof
    assume "naturalCoord n v"
    then have r: "real_of_int \<lfloor>r\<rfloor> = r" "0 \<le> r" "r \<le> real n"
      by (simp_all add: naturalCoord_def Fin)
    then have "0 \<le> \<lfloor>r\<rfloor>" "\<lfloor>r\<rfloor> \<le> int n"
      by (simp_all add: floor_le_iff)
    with r(1) show "v = NaN \<or> (\<exists>k::int. v = Fin (of_int k) \<and> 0 \<le> k \<and> k \<le> int n)"
      unfolding Fin by (intro disjI2 exI [of _ "\<lfloor>r\<rfloor>"]) auto
  next
    assume "v = NaN \<or> (\<exists>k::int. v = Fin (of_int k) \<and> 0 \<le> k \<and> k \<le> int n)"
    then obtain k :: int where k: "r = of_int k" "0 \<le> k" "k \<le> int n"
      unfolding Fin by auto
    have "real_of_int k \<le> real_of_int (int n)"
      using k(3) by (simp only: of_int_le_iff)
    then show "naturalCoord n v"
      using k(2) by (simp add: naturalCoord_def Fin k(1))
  qed
qed (simp_all add: naturalCoord_def)

lemma clamp_round_natural:
  "naturalCoord n (jmax (Fin 0) (jmin (Fin (real n)) (jround v)))"
proof (cases v)
  case (Fin r)
  have "jmax (Fin 0) (jmin (Fin (real n)) (jround (Fin r))) =
     Fin (of_int (max 0 (min (int n) \<lfloor>r + 1 / 2\<rfloor>)))"
    by (rule clamp_round_Fin)
  moreover have "0 \<le> max 0 (min (int n) \<lfloor>r + 1 / 2\<rfloor>)" "max 0 (min (int n) \<lfloor>r + 1 / 2\<rfloor>) \<le> int n"
    by auto
  ultimately show ?thesis
    unfolding naturalCoord_iff Fin by blast
next
  case PInf
  have "Fin (real n) = Fin (of_int (int n))" by simp
  then show ?thesis
    unfolding naturalCoord_iff PInf by (auto simp: max_def intro!: exI [of _ "int n"])
next
  case NInf
  have "Fin 0 = Fin (of_int 0)" by simp
  then show ?thesis
    unfolding naturalCoord_iff NInf by (auto intro!: exI [of _ "0::int"])
next
  case NaN
  then show ?thesis by (simp add: naturalCoord_iff)
qed

lemma naturalCoord_zero: "naturalCoord n (Fin 0)"
  unfolding naturalCoord_iff by (intro disjI2 exI [of _ "0::int"]) simp

lemma eventToImageCoords_natural:
  assumes "imageRef s = Some img \<or> imageRef s = None"
  shows "naturalPoint img (eventToImageCoords evt s)"
proof (cases "canvasRef s = None \<or> imageRef s = None")
  case True
  then have "eventToImageCoords evt s = \<lparr>pt_x = Fin 0, pt_y = Fin 0\<rparr>"
    by (auto simp: eventToImageCoords_def split: option.splits)
  then show ?thesis
    by (simp add: naturalPoint_def naturalCoord_zero)
next
  case False
  then obtain c where "canvasRef s = Some c" "imageRef s = Some img"
    using assms by auto
  then show ?thesis
    by (simp add: eventToImageCoords_def Let_def naturalPoint_def clamp_round_natural
        del: jround.simps jmax.simps jmin.simps jmul.simps jdiv.simps)
qed

lemma gesture_points:
  assumes "gesture img s"
  shows "(imageRef s = Some img \<or> imageRef s = None) \<and>
         (\<exists>sp cp. startPt s = Some sp \<and> currentPt s = Some cp \<and>
                  naturalPoint img sp \<and> naturalPoint img cp)"
  using assms
proof (induction rule: gesture.induct)
  case (gesture_begin s img e s')
  then have "s' = s\<lparr>startPt := Some (eventToImageCoords e s),
                     currentPt := Some (eventToImageCoords e s), isDrawing := True\<rparr>"
    by (simp add: onMouseDown_def Let_def)
  moreover have "naturalPoint img (eventToImageCoords e s)"
    using gesture_begin(1) by (intro eventToImageCoords_natural) simp
  ultimately show ?case
    using gesture_begin(1) by simp
next
  case (gesture_move img s e s')
  have nat: "naturalPoint img (eventToImageCoords e s)"
    using gesture_move.IH by (intro eventToImageCoords_natural) simp
  consider (pan) c where "isPanning s" "canvasRef s = Some c"
    | (idle) "\<not> isPanning s" "\<not> isDrawing s"
    | (draw) "\<not> isPanning s" "isDrawing s"
    using gesture_move.hyps(2) by (cases "canvasRef s") (auto simp: onMouseMove_def split: if_splits)
  then show ?case
  proof cases
    case pan
    then show ?thesis
      using gesture_move.hyps(2) gesture_move.IH by (auto simp: onMouseMove_def Let_def)
  next
    case idle
    then show ?thesis
      using gesture_move.hyps(2) gesture_move.IH by (auto simp: onMouseMove_def)
  next
    case draw
    then have "s' = s\<lparr>currentPt := Some (eventToImageCoords e s)\<rparr>"
      using gesture_move.hyps(2) by (simp add: onMouseMove_def)
    then show ?thesis
      using gesture_move.IH nat by auto
  qed
next
  case (gesture_other img s s')
  then show ?case by auto
qed

lemma commit_inside:
  assumes "naturalCoord n a" "naturalCoord n b" "jgt (jabs (jsub b a)) (Fin 5)"
  shows "\<exists>x w::int. jmin a b = Fin (of_int x) \<and> jabs (jsub b a) = Fin (of_int w) \<and>
           0 \<le> x \<and> 5 < w \<and> x + w \<le> int n"
proof -
  obtain i j :: int where ij: "a = Fin (of_int i)" "b = Fin (of_int j)"
    "0 \<le> i" "i \<le> int n" "0 \<le> j" "j \<le> int n"
    using assms by (auto simp: naturalCoord_iff jgt_def jsub_def)
  have "jmin a b = Fin (of_int (min i j))" "jabs (jsub b a) = Fin (of_int \<bar>j - i\<bar>)"
    by (simp_all add: ij jsub_def)
  moreover have "5 < \<bar>j - i\<bar>"
    using assms(3) unfolding ij jgt_def jsub_def
    by simp
  moreover have "0 \<le> min i j" "min i j + \<bar>j - i\<bar> \<le> int n"
    using ij by auto
  ultimately show ?thesis by blast
qed

lemma committed_box_inside_image:
  assumes "gesture img s"
  shows "boxes (endInteractions uuid s) = boxes s \<or>
         (\<exists>x y w h :: int.
            boxes (endInteractions uuid s) =
              boxes s @ [\<lparr>box_id = uuid, box_x = Fin (of_int x), box_y = Fin (of_int y),
                          box_w = Fin (of_int w), box_h = Fin (of_int h), box_name = ''''\<rparr>] \<and>
            0 \<le> x \<and> 0 \<le> y \<and> 5 < w \<and> 5 < h \<and>
            x + w \<le> int (naturalWidth img) \<and> y + h \<le> int (naturalHeight img))"
proof -
  obtain sp cp where pts: "startPt s = Some sp" "currentPt s = Some cp"
    "naturalPoint img sp" "naturalPoint img cp"
    using gesture_points [OF assms] by blast
  show ?thesis
  proof (cases "isDrawing s \<and> jgt (jabs (jsub (pt_x cp) (pt_x sp))) (Fin 5) \<and>
                jgt (jabs (jsub (pt_y cp) (pt_y sp))) (Fin 5)")
    case False
    then have "boxes (endInteractions uuid s) = boxes s"
      by (auto simp: endInteractions_def Let_def pts split: bool.splits)
    then show ?thesis ..
  next
    case True
    obtain x w :: int where xw: "jmin (pt_x sp) (pt_x cp) = Fin (of_int x)"
      "jabs (jsub (pt_x cp) (pt_x sp)) = Fin (of_int w)" "0 \<le> x" "5 < w"
      "x + w \<le> int (naturalWidth img)"
      using commit_inside [of "naturalWidth img" "pt_x sp" "pt_x cp"] pts True
      by (auto simp: naturalPoint_def)
    obtain y h :: int where yh: "jmin (pt_y sp) (pt_y cp) = Fin (of_int y)"
      "jabs (jsub (pt_y cp) (pt_y sp)) = Fin (of_int h)" "0 \<le> y" "5 < h"
      "y + h \<le> int (naturalHeight img)"
      using commit_inside [of "naturalHeight img" "pt_y sp" "pt_y cp"] pts True
      by (auto simp: naturalPoint_def)
    have "boxes (endInteractions uuid s) =
        boxes s @ [\<lparr>box_id = uuid, box_x = Fin (of_int x), box_y = Fin (of_int y),
                    box_w = Fin (of_int w), box_h = Fin (of_int h), box_name = ''''\<rparr>]"
      using True by (simp add: endInteractions_def Let_def pts xw yh)
    then show ?thesis
      using xw(3-) yh(3-) by blast
  qed
qed

lemma committed_box_inside_image_example:
  "gesture exImage exDrag \<and>
   boxes (endInteractions ''a'' exDrag) =
     boxes exDrag @ [\<lparr>box_id = ''a'', box_x = Fin 100, box_y = Fin 100, box_w = Fin 200,
                      box_h = Fin 100, box_name = ''''\<rparr>] \<and>
   (100::int) + 200 \<le> int (naturalWidth exImage) \<and> (100::int) + 100 \<le> int (naturalHeight exImage)"
proof -
  have "boxes (endInteractions ''a'' exDrag) =
     boxes exDrag @ [\<lparr>box_id = ''a'', box_x = Fin 100, box_y = Fin 100, box_w = Fin 200,
                      box_h = Fin 100, box_name = ''''\<rparr>]"
    using committed_box_inside_image [OF exDrag_gesture, of "''a''"]
    by (simp add: exDrag_eval endInteractions_def Let_def jsub_def jgt_def)
  then show ?thesis
    using exDrag_gesture by simp
qed

section \<open>Renaming and removing boxes\<close>

lemma rename_absent:
  "i \<notin> box_id ` set zs \<Longrightarrow>
     map (\<lambda>b. if box_id b = i then b\<lparr>box_name := name\<rparr> else b) zs = (zs :: box list)"
  by (induction zs) auto

lemma remove_absent:
  "i \<notin> box_id ` set zs \<Longrightarrow> filter (\<lambda>b. box_id b \<noteq> i) zs = (zs :: box list)"
  by (induction zs) auto

text \<open>
  C6. Renaming or removing with an identifier that no box carries leaves the whole state,
  and so the sequence of boxes, as it is. When exactly one box carries the identifier,
  renaming replaces the name of that box and nothing else, and removing deletes that box
  and nothing else; the order of the others is kept.
\<close>

theorem rename_remove_by_id:
  "(i \<notin> box_id ` set (boxes s) \<longrightarrow> updateBoxName i name s = s \<and> deleteBox i s = s) \<and>
   (boxes s = xs @ b # ys \<and> box_id b = i \<and> i \<notin> box_id ` set (xs @ ys) \<longrightarrow>
      updateBoxName i name s = s\<lparr>boxes := xs @ b\<lparr>box_name := name\<rparr> # ys\<rparr> \<and>
      deleteBox i s = s\<lparr>boxes := xs @ ys\<rparr>)"
proof (intro conjI impI)
  assume "i \<notin> box_id ` set (boxes s)"
  then show "updateBoxName i name s = s" "deleteBox i s = s"
    by (simp_all add: updateBoxName_def deleteBox_def rename_absent remove_absent)
next
  assume h: "boxes s = xs @ b # ys \<and> box_id b = i \<and> i \<notin> box_id ` set (xs @ ys)"
  then have "i \<notin> box_id ` set xs" "i \<notin> box_id ` set ys"
    by auto
  with h show "updateBoxName i name s = s\<lparr>boxes := xs @ b\<lparr>box_name := name\<rparr> # ys\<rparr>"
    "deleteBox i s = s\<lparr>boxes := xs @ ys\<rparr>"
    by (simp_all add: updateBoxName_def deleteBox_def rename_absent remove_absent)
qed

theorem rename_remove_by_id_witness:
  "''zz'' \<notin> box_id ` set (boxes exTwoBoxes) \<and>
   updateBoxName ''zz'' ''Date'' exTwoBoxes = exTwoBoxes \<and>
   deleteBox ''zz'' exTwoBoxes = exTwoBoxes \<and>
   boxes exTwoBoxes = [exBoxA] @ exBoxB # [] \<and> box_id exBoxB = ''b'' \<and>
   ''b'' \<notin> box_id ` set ([exBoxA] @ []) \<and>
   boxes (updateBoxName ''b'' ''Date'' exTwoBoxes) = [exBoxA, exBoxB\<lparr>box_name := ''Date''\<rparr>] \<and>
   boxes (deleteBox ''b'' exTwoBoxes) = [exBoxA]"
  using rename_remove_by_id [of "''zz''" exTwoBoxes "''Date''"]
    rename_remove_by_id [of "''b''" exTwoBoxes "''Date''" "[exBoxA]" exBoxB "[]"]
  by (simp add: exTwoBoxes_def exBoxA_def exBoxB_def)

section \<open>The transform without a canvas or an image\<close>

text \<open>
  C9. When the canvas or the image is missing, \<^verbatim>\<open>eventToImageCoords\<close> returns the
  origin \<open>{x: 0, y: 0}\<close>; it is a total function, so nothing fails in the caller.
\<close>

theorem eventToImageCoords_missing:
  "canvasRef s = None \<or> imageRef s = None \<Longrightarrow>
     eventToImageCoords evt s = \<lparr>pt_x = Fin 0, pt_y = Fin 0\<rparr>"
  by (auto simp: eventToImageCoords_def split: option.splits)

theorem eventToImageCoords_missing_witness:
  "imageRef exInit = None \<and> eventToImageCoords exDown exInit = \<lparr>pt_x = Fin 0, pt_y = Fin 0\<rparr> \<and>
   canvasRef (exLoaded\<lparr>canvasRef := None\<rparr>) = None \<and>
   eventToImageCoords exDown (exLoaded\<lparr>canvasRef := None\<rparr>) = \<lparr>pt_x = Fin 0, pt_y = Fin 0\<rparr>"
  using eventToImageCoords_missing [of exInit exDown]
    eventToImageCoords_missing [of "exLoaded\<lparr>canvasRef := None\<rparr>" exDown]
  by (simp add: exInit_def initialState_def)

end
